theory Spec2Isabelle
  imports Complex_Main "HOL-Library.Word"
begin

unbundle bit_operations_syntax

section \<open>Strings, errors\<close>

text \<open>
  A JavaScript string is a sequence of 16-bit code units. An ASCII literal of the source
  is written \<open>js ''...''\<close>; code units that cannot be typed in a literal (the quote, the
  backslash) are written as numbers.
\<close>

type_synonym jsstring = "16 word list"

definition js :: "string \<Rightarrow> jsstring" where
  "js s = map of_char s"

text \<open>
  Everything that can be thrown or rejected in the modelled code. The two \<open>Error\<close>s that
  \<open>handleCheckIn\<close> throws itself are \<open>NoTokenFound\<close> ("Invalid QR code: No token found")
  and \<open>RsvpNotFound\<close> ("RSVP not found"); the others come from the platform: \<open>JSON.parse\<close>,
  a property read on \<open>null\<close>, \<open>crypto.getRandomValues\<close>, the Firestore client and
  \<open>QRCode.toDataURL\<close>.
\<close>

datatype error =
    SyntaxError
  | TypeError
  | QuotaExceededError
  | NoTokenFound
  | RsvpNotFound
  | InvalidDocumentReference
  | FirestoreUnavailable
  | FirestoreNotFound
  | QRCodeError

section \<open>QRGenerator: \<open>makeToken\<close>\<close>

definition alphabet :: jsstring where
  "alphabet = js ''0123456789abcdefghijklmnopqrstuvwxyzABCDEFGHIJKLMNOPQRSTUVWXYZ''"

text \<open>
  \<open>crypto.getRandomValues(bytes)\<close> on a fresh \<open>Uint8Array(len)\<close>. The entropy is an input
  of the model: \<open>rnd i\<close> is the byte the secure source delivers for position \<open>i\<close>. The Web
  Crypto API rejects a request for more than 65536 bytes with a \<open>QuotaExceededError\<close>
  (a length that no typed array can have fails before that, in the allocation; the two
  failures are not told apart here).
\<close>

definition getRandomValues :: "(nat \<Rightarrow> 8 word) \<Rightarrow> nat \<Rightarrow> error + 8 word list" where
  "getRandomValues rnd len =
     (if 65536 < len then Inl QuotaExceededError else Inr (map rnd [0..<len]))"

text \<open>\<open>makeToken(len = 16)\<close>: the argument is \<open>None\<close> when the caller leaves it out.\<close>

definition makeToken :: "nat option \<Rightarrow> (nat \<Rightarrow> 8 word) \<Rightarrow> error + jsstring" where
  "makeToken len_arg rnd =
     (let len = (case len_arg of None \<Rightarrow> 16 | Some l \<Rightarrow> l) in
      case getRandomValues rnd len of
        Inl e \<Rightarrow> Inl e
      | Inr bytes \<Rightarrow> Inr (map (\<lambda>b. alphabet ! (unat b mod length alphabet)) bytes))"

section \<open>JSON\<close>

subsection \<open>Values\<close>

text \<open>
  The values \<open>JSON.parse\<close> can return. A number carries the exact value of its literal;
  the JavaScript Number is the double nearest to it. An object keeps its members in the
  order of the text, duplicates included; a property read takes the last one.
\<close>

datatype jsval =
    JNull
  | JBool bool
  | JNum rat
  | JStr jsstring
  | JArr "jsval list"
  | JObj "(jsstring \<times> jsval) list"

text \<open>
  \<open>v.k\<close> for the two keys the scanner reads, \<open>t\<close> and \<open>token\<close>: a \<open>TypeError\<close> on \<open>null\<close>,
  the own property on an object, and \<open>undefined\<close> (\<open>None\<close>) on booleans, numbers, strings
  and arrays, whose prototypes have neither key.
\<close>

definition get_prop :: "jsval \<Rightarrow> jsstring \<Rightarrow> error + jsval option" where
  "get_prop v k =
     (case v of
        JNull \<Rightarrow> Inl TypeError
      | JObj ms \<Rightarrow> Inr (map_of (rev ms) k)
      | _ \<Rightarrow> Inr None)"

text \<open>
  Truthiness. A literal denotes a double that is zero exactly when its magnitude is at
  most 2 to the power -1075, half of the smallest subnormal (ties go to the even neighbour, zero).
\<close>

definition truthy :: "jsval option \<Rightarrow> bool" where
  "truthy v =
     (case v of
        None \<Rightarrow> False
      | Some JNull \<Rightarrow> False
      | Some (JBool b) \<Rightarrow> b
      | Some (JNum q) \<Rightarrow> 1 / 2 ^ 1075 < \<bar>q\<bar>
      | Some (JStr s) \<Rightarrow> s \<noteq> []
      | Some (JArr _) \<Rightarrow> True
      | Some (JObj _) \<Rightarrow> True)"

subsection \<open>\<open>JSON.stringify\<close>\<close>

definition hexdigit :: "16 word \<Rightarrow> 16 word" where
  "hexdigit n = (if n < 10 then 0x30 + n else 0x57 + n)"

definition unicode_escape :: "16 word \<Rightarrow> jsstring" where
  "unicode_escape c =
     [0x5C, 0x75, hexdigit (drop_bit 12 c), hexdigit (drop_bit 8 c AND 0xF),
      hexdigit (drop_bit 4 c AND 0xF), hexdigit (c AND 0xF)]"

definition is_lead :: "16 word \<Rightarrow> bool" where
  "is_lead c \<longleftrightarrow> 0xD800 \<le> c \<and> c \<le> 0xDBFF"

definition is_trail :: "16 word \<Rightarrow> bool" where
  "is_trail c \<longleftrightarrow> 0xDC00 \<le> c \<and> c \<le> 0xDFFF"

text \<open>The seven characters that have a short escape.\<close>

definition short_escaped :: "16 word \<Rightarrow> bool" where
  "short_escaped c \<longleftrightarrow>
     c = 0x08 \<or> c = 0x09 \<or> c = 0x0A \<or> c = 0x0C \<or> c = 0x0D \<or> c = 0x22 \<or> c = 0x5C"

text \<open>
  QuoteJSONString without the enclosing quotes: short escapes for backspace, tab, line
  feed, form feed, carriage return, the quote and the backslash; \<open>\uXXXX\<close> in lowercase for
  the other control characters and for a surrogate that has no partner; a surrogate pair
  and every other code unit as they are.
\<close>

fun quote_chars :: "jsstring \<Rightarrow> jsstring" where
  "quote_chars [] = []"
| "quote_chars (c # cs) =
     (if c = 0x08 then [0x5C, 0x62] @ quote_chars cs
      else if c = 0x09 then [0x5C, 0x74] @ quote_chars cs
      else if c = 0x0A then [0x5C, 0x6E] @ quote_chars cs
      else if c = 0x0C then [0x5C, 0x66] @ quote_chars cs
      else if c = 0x0D then [0x5C, 0x72] @ quote_chars cs
      else if c = 0x22 then [0x5C, 0x22] @ quote_chars cs
      else if c = 0x5C then [0x5C, 0x5C] @ quote_chars cs
      else if c < 0x20 then unicode_escape c @ quote_chars cs
      else if is_lead c then
        (case cs of
           [] \<Rightarrow> unicode_escape c
         | d # ds \<Rightarrow>
             if is_trail d then c # d # quote_chars ds
             else unicode_escape c @ quote_chars cs)
      else if is_trail c then unicode_escape c @ quote_chars cs
      else c # quote_chars cs)"

definition JSON_quote :: "jsstring \<Rightarrow> jsstring" where
  "JSON_quote s = [0x22] @ quote_chars s @ [0x22]"

text \<open>
  \<open>JSON.stringify\<close> of an object literal whose property values are strings and booleans,
  with no indentation argument: the members in the order of the literal, separated by
  commas, no white space.
\<close>

datatype field_value = SV jsstring | BV bool

definition stringify_member :: "string \<times> field_value \<Rightarrow> jsstring" where
  "stringify_member m =
     JSON_quote (js (fst m)) @ [0x3A] @
     (case snd m of
        SV s \<Rightarrow> JSON_quote s
      | BV b \<Rightarrow> if b then js ''true'' else js ''false'')"

fun join_members :: "jsstring list \<Rightarrow> jsstring" where
  "join_members [] = []"
| "join_members [m] = m"
| "join_members (m # ms) = m @ [0x2C] @ join_members ms"

definition JSON_stringify :: "(string \<times> field_value) list \<Rightarrow> jsstring" where
  "JSON_stringify fs = [0x7B] @ join_members (map stringify_member fs) @ [0x7D]"

text \<open>A member of such an object literal as the JavaScript property it denotes.\<close>

definition member_value :: "string \<times> field_value \<Rightarrow> jsstring \<times> jsval" where
  "member_value m = (js (fst m), (case snd m of SV s \<Rightarrow> JStr s | BV b \<Rightarrow> JBool b))"

subsection \<open>\<open>JSON.parse\<close>\<close>

definition is_ws :: "16 word \<Rightarrow> bool" where
  "is_ws c \<longleftrightarrow> c = 0x20 \<or> c = 0x09 \<or> c = 0x0A \<or> c = 0x0D"

definition skip_ws :: "jsstring \<Rightarrow> jsstring" where
  "skip_ws s = dropWhile is_ws s"

definition hexval :: "16 word \<Rightarrow> 16 word option" where
  "hexval c =
     (if 0x30 \<le> c \<and> c \<le> 0x39 then Some (c - 0x30)
      else if 0x41 \<le> c \<and> c \<le> 0x46 then Some (c - 0x37)
      else if 0x61 \<le> c \<and> c \<le> 0x66 then Some (c - 0x57)
      else None)"

definition parse_hex4 :: "16 word \<Rightarrow> 16 word \<Rightarrow> 16 word \<Rightarrow> 16 word \<Rightarrow> 16 word option" where
  "parse_hex4 a b c d =
     (case (hexval a, hexval b, hexval c, hexval d) of
        (Some h3, Some h2, Some h1, Some h0) \<Rightarrow>
          Some (push_bit 12 h3 OR push_bit 8 h2 OR push_bit 4 h1 OR h0)
      | _ \<Rightarrow> None)"

definition unescape :: "16 word \<Rightarrow> 16 word option" where
  "unescape e =
     (if e = 0x22 then Some 0x22
      else if e = 0x5C then Some 0x5C
      else if e = 0x2F then Some 0x2F
      else if e = 0x62 then Some 0x08
      else if e = 0x66 then Some 0x0C
      else if e = 0x6E then Some 0x0A
      else if e = 0x72 then Some 0x0D
      else if e = 0x74 then Some 0x09
      else None)"

text \<open>
  The characters of a string after its opening quote, up to and including the closing
  quote: the decoded string and the rest of the text.
\<close>

fun parse_chars :: "jsstring \<Rightarrow> (jsstring \<times> jsstring) option" where
  "parse_chars [] = None"
| "parse_chars (c # cs) =
     (if c = 0x22 then Some ([], cs)
      else if c = 0x5C then
        (case cs of
           [] \<Rightarrow> None
         | e # r \<Rightarrow>
             if e = 0x75 then
               (case r of
                  h3 # h2 # h1 # h0 # r' \<Rightarrow>
                    (case parse_hex4 h3 h2 h1 h0 of
                       None \<Rightarrow> None
                     | Some u \<Rightarrow> map_option (\<lambda>(str, rest). (u # str, rest)) (parse_chars r'))
                | _ \<Rightarrow> None)
             else
               (case unescape e of
                  None \<Rightarrow> None
                | Some u \<Rightarrow> map_option (\<lambda>(str, rest). (u # str, rest)) (parse_chars r)))
      else if c < 0x20 then None
      else map_option (\<lambda>(str, rest). (c # str, rest)) (parse_chars cs))"

definition is_digit :: "16 word \<Rightarrow> bool" where
  "is_digit c \<longleftrightarrow> 0x30 \<le> c \<and> c \<le> 0x39"

definition digits_value :: "jsstring \<Rightarrow> nat" where
  "digits_value ds = foldl (\<lambda>acc c. 10 * acc + unat (c - 0x30)) 0 ds"

definition scale10 :: "nat \<Rightarrow> int \<Rightarrow> rat" where
  "scale10 m e = (if 0 \<le> e then of_nat m * 10 ^ nat e else of_nat m / 10 ^ nat (- e))"

definition parse_int_part :: "jsstring \<Rightarrow> (jsstring \<times> jsstring) option" where
  "parse_int_part s =
     (case s of
        [] \<Rightarrow> None
      | c # cs \<Rightarrow>
          if c = 0x30 then Some ([c], cs)
          else if is_digit c then Some (c # takeWhile is_digit cs, dropWhile is_digit cs)
          else None)"

definition parse_frac_part :: "jsstring \<Rightarrow> (jsstring \<times> jsstring) option" where
  "parse_frac_part s =
     (case s of
        [] \<Rightarrow> Some ([], s)
      | c # cs \<Rightarrow>
          if c = 0x2E then
            (if takeWhile is_digit cs = [] then None
             else Some (takeWhile is_digit cs, dropWhile is_digit cs))
          else Some ([], s))"

definition parse_exp_digits :: "bool \<Rightarrow> jsstring \<Rightarrow> (int \<times> jsstring) option" where
  "parse_exp_digits neg s =
     (if takeWhile is_digit s = [] then None
      else Some ((if neg then - int (digits_value (takeWhile is_digit s))
                  else int (digits_value (takeWhile is_digit s))),
                 dropWhile is_digit s))"

definition parse_exp_part :: "jsstring \<Rightarrow> (int \<times> jsstring) option" where
  "parse_exp_part s =
     (case s of
        [] \<Rightarrow> Some (0, s)
      | c # cs \<Rightarrow>
          if c = 0x65 \<or> c = 0x45 then
            (case cs of
               [] \<Rightarrow> None
             | sg # ds \<Rightarrow>
                 if sg = 0x2B then parse_exp_digits False ds
                 else if sg = 0x2D then parse_exp_digits True ds
                 else parse_exp_digits False cs)
          else Some (0, s))"

definition parse_unsigned :: "jsstring \<Rightarrow> (rat \<times> jsstring) option" where
  "parse_unsigned s =
     (case parse_int_part s of
        None \<Rightarrow> None
      | Some (ip, r1) \<Rightarrow>
          (case parse_frac_part r1 of
             None \<Rightarrow> None
           | Some (fp, r2) \<Rightarrow>
               (case parse_exp_part r2 of
                  None \<Rightarrow> None
                | Some (e, r3) \<Rightarrow>
                    Some (scale10 (digits_value (ip @ fp)) (e - int (length fp)), r3))))"

definition parse_number :: "jsstring \<Rightarrow> (rat \<times> jsstring) option" where
  "parse_number s =
     (case s of
        [] \<Rightarrow> None
      | c # cs \<Rightarrow>
          if c = 0x2D then map_option (\<lambda>(q, r). (- q, r)) (parse_unsigned cs)
          else parse_unsigned s)"

text \<open>
  Recursive descent over the JSON grammar. \<open>parse_value\<close> reads white space, one value and
  white space; \<open>parse_elements\<close> reads the elements of a non-empty array up to and
  including the closing bracket, \<open>parse_members\<close> the members of a non-empty object up to
  and including the closing brace. The first argument is fuel: it bounds the depth of the
  calls, and twice the length of the text is always enough (\<open>JSON_parse_fuel\<close> below).
\<close>

fun parse_value :: "nat \<Rightarrow> jsstring \<Rightarrow> (jsval \<times> jsstring) option"
  and parse_elements :: "nat \<Rightarrow> jsstring \<Rightarrow> (jsval list \<times> jsstring) option"
  and parse_members :: "nat \<Rightarrow> jsstring \<Rightarrow> ((jsstring \<times> jsval) list \<times> jsstring) option"
where
  "parse_value 0 s = None"
| "parse_value (Suc n) s =
     (case skip_ws s of
        [] \<Rightarrow> None
      | c # cs \<Rightarrow>
          if c = 0x22 then
            map_option (\<lambda>(str, r). (JStr str, skip_ws r)) (parse_chars cs)
          else if c = 0x5B then
            (case skip_ws cs of
               [] \<Rightarrow> None
             | d # ds \<Rightarrow>
                 if d = 0x5D then Some (JArr [], skip_ws ds)
                 else map_option (\<lambda>(vs, r). (JArr vs, skip_ws r)) (parse_elements n cs))
          else if c = 0x7B then
            (case skip_ws cs of
               [] \<Rightarrow> None
             | d # ds \<Rightarrow>
                 if d = 0x7D then Some (JObj [], skip_ws ds)
                 else map_option (\<lambda>(ms, r). (JObj ms, skip_ws r)) (parse_members n cs))
          else if take 4 (c # cs) = js ''true'' then Some (JBool True, skip_ws (drop 3 cs))
          else if take 5 (c # cs) = js ''false'' then Some (JBool False, skip_ws (drop 4 cs))
          else if take 4 (c # cs) = js ''null'' then Some (JNull, skip_ws (drop 3 cs))
          else map_option (\<lambda>(q, r). (JNum q, skip_ws r)) (parse_number (c # cs)))"
| "parse_elements 0 s = None"
| "parse_elements (Suc n) s =
     (case parse_value n s of
        None \<Rightarrow> None
      | Some (v, r) \<Rightarrow>
          (case r of
             [] \<Rightarrow> None
           | c # cs \<Rightarrow>
               if c = 0x5D then Some ([v], cs)
               else if c = 0x2C then map_option (\<lambda>(vs, r'). (v # vs, r')) (parse_elements n cs)
               else None))"
| "parse_members 0 s = None"
| "parse_members (Suc n) s =
     (case skip_ws s of
        [] \<Rightarrow> None
      | q # qs \<Rightarrow>
          if q = 0x22 then
            (case parse_chars qs of
               None \<Rightarrow> None
             | Some (k, r0) \<Rightarrow>
                 (case skip_ws r0 of
                    [] \<Rightarrow> None
                  | col # r1 \<Rightarrow>
                      if col = 0x3A then
                        (case parse_value n r1 of
                           None \<Rightarrow> None
                         | Some (v, r) \<Rightarrow>
                             (case r of
                                [] \<Rightarrow> None
                              | c # cs \<Rightarrow>
                                  if c = 0x7D then Some ([(k, v)], cs)
                                  else if c = 0x2C then
                                    map_option (\<lambda>(ms, r'). ((k, v) # ms, r')) (parse_members n cs)
                                  else None))
                      else None))
          else None)"

definition JSON_parse :: "jsstring \<Rightarrow> error + jsval" where
  "JSON_parse text =
     (case parse_value (2 * length text + 2) text of
        None \<Rightarrow> Inl SyntaxError
      | Some (v, rest) \<Rightarrow> if rest = [] then Inr v else Inl SyntaxError)"

text \<open>
  What it means that a fuel \<open>m\<close> was enough for one of the three parsers: a result it
  gives has consumed input, and every fuel of at least twice the consumed length gives
  the same result.
\<close>

definition fuel_ok :: "(nat \<Rightarrow> jsstring \<Rightarrow> ('a \<times> jsstring) option) \<Rightarrow> nat \<Rightarrow> bool" where
  "fuel_ok f m \<longleftrightarrow>
     (\<forall>s x r. f m s = Some (x, r) \<longrightarrow>
        length r < length s \<and> (\<forall>n. 2 * (length s - length r) \<le> n \<longrightarrow> f n s = Some (x, r)))"

section \<open>The Firestore collection \<open>rsvps\<close>\<close>

text \<open>
  A document is a finite map from field names to values; the collection maps a document
  id to its document. Document ids are opaque: the way the client splits an id at slashes
  is not part of the model. The first argument of each operation says whether the backend
  answers (\<open>False\<close>: the promise rejects). \<open>setDoc\<close> without merge options replaces the
  whole document, whether or not one exists; \<open>updateDoc\<close> overwrites the given fields of
  an existing document and rejects when there is none; neither looks at the current field
  values.
\<close>

datatype fval = FStr jsstring | FBool bool | FTime nat

type_synonym document = "string \<rightharpoonup> fval"

type_synonym firestore = "jsstring \<rightharpoonup> document"

text \<open>\<open>doc(db, "rsvps", token)\<close>: the client rejects an id that is not a non-empty string.\<close>

definition doc_ref :: "jsval option \<Rightarrow> error + jsstring" where
  "doc_ref token =
     (case token of
        Some (JStr s) \<Rightarrow> if s = [] then Inl InvalidDocumentReference else Inr s
      | _ \<Rightarrow> Inl TypeError)"

definition getDoc :: "bool \<Rightarrow> firestore \<Rightarrow> jsstring \<Rightarrow> error + document option" where
  "getDoc up db k = (if up then Inr (db k) else Inl FirestoreUnavailable)"

definition setDoc :: "bool \<Rightarrow> firestore \<Rightarrow> jsstring \<Rightarrow> document \<Rightarrow> error + firestore" where
  "setDoc up db k d = (if up then Inr (db(k \<mapsto> d)) else Inl FirestoreUnavailable)"

definition updateDoc :: "bool \<Rightarrow> firestore \<Rightarrow> jsstring \<Rightarrow> document \<Rightarrow> error + firestore" where
  "updateDoc up db k fields =
     (if up then
        (case db k of
           None \<Rightarrow> Inl FirestoreNotFound
         | Some d \<Rightarrow> Inr (db(k \<mapsto> d ++ fields)))
      else Inl FirestoreUnavailable)"

section \<open>QRGenerator: validation and \<open>handleSubmit\<close>\<close>

record FormData =
  name :: jsstring
  email :: jsstring
  phone :: jsstring
  confirmComing :: bool

text \<open>White space and line terminators: what \<open>trim()\<close> strips and \<open>\s\<close> matches.\<close>

definition is_space :: "16 word \<Rightarrow> bool" where
  "is_space c \<longleftrightarrow>
     (0x09 \<le> c \<and> c \<le> 0x0D) \<or> c = 0x20 \<or> c = 0xA0 \<or> c = 0x1680 \<or>
     (0x2000 \<le> c \<and> c \<le> 0x200A) \<or> c = 0x2028 \<or> c = 0x2029 \<or> c = 0x202F \<or>
     c = 0x205F \<or> c = 0x3000 \<or> c = 0xFEFF"

definition trim :: "jsstring \<Rightarrow> jsstring" where
  "trim s = rev (dropWhile is_space (rev (dropWhile is_space s)))"

text \<open>
  \<open>/^[^\s@]+@[^\s@]+\.[^\s@]+$/\<close>: a non-empty run without white space or \<open>@\<close>, one \<open>@\<close>,
  and a rest without white space or \<open>@\<close> that has a dot with a character on each side.
\<close>

definition local_char :: "16 word \<Rightarrow> bool" where
  "local_char c \<longleftrightarrow> (if is_space c then False else c \<noteq> 0x40)"

definition emailOk :: "jsstring \<Rightarrow> bool" where
  "emailOk v =
     (takeWhile local_char v \<noteq> [] \<and>
      (case dropWhile local_char v of
         [] \<Rightarrow> False
       | c # rest \<Rightarrow>
           c = 0x40 \<and> list_all local_char rest \<and> 0x2E \<in> set (butlast (tl rest))))"

text \<open>\<open>/^[0-9+\-\s]{7,15}$/\<close>\<close>

definition phone_char :: "16 word \<Rightarrow> bool" where
  "phone_char c \<longleftrightarrow> (0x30 \<le> c \<and> c \<le> 0x39) \<or> c = 0x2B \<or> c = 0x2D \<or> is_space c"

definition phoneOk :: "jsstring \<Rightarrow> bool" where
  "phoneOk v \<longleftrightarrow> 7 \<le> length v \<and> length v \<le> 15 \<and> list_all phone_char v"

text \<open>\<open>isValid\<close>: the \<open>errors\<close> object has no key.\<close>

definition isValid :: "FormData \<Rightarrow> bool" where
  "isValid d \<longleftrightarrow>
     trim (name d) \<noteq> [] \<and>
     trim (email d) \<noteq> [] \<and> emailOk (email d) \<and>
     trim (phone d) \<noteq> [] \<and> phoneOk (phone d) \<and>
     confirmComing d"

datatype gen_message = SavedAndGenerated | FailedToGenerate

record generator =
  data :: FormData
  touched :: "string \<rightharpoonup> bool"
  qrUrl :: "jsstring option"
  isGenerating :: bool
  lastToken :: "jsstring option"
  message :: "gen_message option"

text \<open>
  What one run of \<open>handleSubmit\<close> takes from outside: the entropy of the secure source,
  whether the store accepts the write, the time the server stamps on it
  (\<open>serverTimestamp()\<close>), and \<open>QRCode.toDataURL\<close> with the options of the source
  (width 512, margin 2, error correction M), which rejects what it cannot encode.
\<close>

record submit_env =
  entropy :: "nat \<Rightarrow> 8 word"
  store_up :: bool
  server_time :: nat
  toDataURL :: "jsstring \<Rightarrow> error + jsstring"

text \<open>The record written to the store and the payload put into the code.\<close>

definition rsvp_record :: "jsstring \<Rightarrow> FormData \<Rightarrow> nat \<Rightarrow> document" where
  "rsvp_record token d created =
     [''t'' \<mapsto> FStr (js ''rsvp''),
      ''token'' \<mapsto> FStr token,
      ''name'' \<mapsto> FStr (trim (name d)),
      ''email'' \<mapsto> FStr (trim (email d)),
      ''phone'' \<mapsto> FStr (trim (phone d)),
      ''coming'' \<mapsto> FBool (confirmComing d),
      ''status'' \<mapsto> FStr (js ''invited''),
      ''createdAt'' \<mapsto> FTime created]"

definition rsvp_payload :: "jsstring \<Rightarrow> FormData \<Rightarrow> jsstring" where
  "rsvp_payload token d =
     JSON_stringify
       [(''t'', SV (js ''rsvp'')),
        (''token'', SV token),
        (''name'', SV (trim (name d))),
        (''email'', SV (trim (email d))),
        (''phone'', SV (trim (phone d))),
        (''coming'', BV (confirmComing d))]"

text \<open>The \<open>try\<close> block of \<open>handleSubmit\<close>: the store as it leaves it, and what it produced.\<close>

definition submit_body ::
  "submit_env \<Rightarrow> FormData \<Rightarrow> firestore \<Rightarrow> firestore \<times> (error + jsstring \<times> jsstring)" where
  "submit_body env d db =
     (case makeToken (Some 16) (entropy env) of
        Inl e \<Rightarrow> (db, Inl e)
      | Inr token \<Rightarrow>
          (case setDoc (store_up env) db token (rsvp_record token d (server_time env)) of
             Inl e \<Rightarrow> (db, Inl e)
           | Inr db' \<Rightarrow>
               (case toDataURL env (rsvp_payload token d) of
                  Inl e \<Rightarrow> (db', Inl e)
                | Inr url \<Rightarrow> (db', Inr (url, token)))))"

definition handleSubmit :: "submit_env \<Rightarrow> firestore \<times> generator \<Rightarrow> firestore \<times> generator" where
  "handleSubmit env st =
     (let db = fst st;
          g1 = (snd st)\<lparr>touched := [''name'' \<mapsto> True, ''email'' \<mapsto> True, ''phone'' \<mapsto> True],
                        message := None\<rparr>
      in if isValid (data g1) then
           (let g2 = g1\<lparr>isGenerating := True\<rparr>;
                r = submit_body env (data g1) db;
                g3 = (case snd r of
                        Inr (url, token) \<Rightarrow>
                          g2\<lparr>qrUrl := Some url, lastToken := Some token,
                             message := Some SavedAndGenerated\<rparr>
                      | Inl e \<Rightarrow> g2\<lparr>message := Some FailedToGenerate\<rparr>)
            in (fst r, g3\<lparr>isGenerating := False\<rparr>))
         else (db, g1))"

section \<open>QRScanner with check-in\<close>

datatype status_msg =
    Idle
  | Hint
  | Processing
  | AlreadyCheckedIn "fval option"
  | CheckedIn "fval option"
  | CheckInFailed error
  | InvalidRsvp
  | NotRsvp
  | FoundCode

text \<open>
  The messages of the source, one constructor per template: \<open>Processing\<close> is
  "Processing check-in...", \<open>AlreadyCheckedIn n\<close> is "<name> is already checked in!",
  \<open>CheckedIn n\<close> is "<name> checked in successfully!", \<open>CheckInFailed e\<close> is
  "Check-in failed: <message>", \<open>InvalidRsvp\<close> is "Invalid RSVP QR code", \<open>NotRsvp\<close> is
  "Not an RSVP QR code", \<open>FoundCode\<close> is the message of the plain scanner. The argument
  is the \<open>name\<close> field of the record read from the store.
\<close>

record scanner =
  nextAllowed :: nat
  running :: bool
  status :: status_msg
  lastScanResult :: "(fval option \<times> fval option) option"
  isProcessing :: bool

text \<open>
  What the component does to the outside: it starts \<open>handleCheckIn\<close>, calls \<open>onResult\<close>
  with the raw text or with the enriched payload of a successful check-in (the payload
  and the time of \<open>toISOString\<close>), calls \<open>onError\<close>, or arms the three-second timer that
  puts the hint back.
\<close>

datatype action =
    CheckIn jsval
  | OnResult jsstring
  | OnResultCheckedIn jsval nat
  | OnError error
  | StatusResetTimer

text \<open>
  What one run of \<open>handleCheckIn\<close> takes from outside: whether the read and the update
  are answered, the writes of other clients that reach the store between this run's read
  and its update, and the two readings of the clock.
\<close>

record checkin_env =
  read_up :: bool
  interleaved :: "firestore \<Rightarrow> firestore"
  write_up :: bool
  write_time :: nat
  report_time :: nat

definition checkin_fields :: "nat \<Rightarrow> document" where
  "checkin_fields now =
     [''coming'' \<mapsto> FBool True,
      ''status'' \<mapsto> FStr (js ''checked_in''),
      ''checkedInAt'' \<mapsto> FTime now,
      ''checkedInBy'' \<mapsto> FStr (js ''scanner'')]"

datatype checkin_result = AlreadyIn document | Done document

text \<open>The \<open>try\<close> block of \<open>handleCheckIn\<close> up to the update.\<close>

definition checkin_body ::
  "checkin_env \<Rightarrow> jsval \<Rightarrow> firestore \<Rightarrow> firestore \<times> (error + checkin_result)" where
  "checkin_body env qrData db =
     (case get_prop qrData (js ''token'') of
        Inl e \<Rightarrow> (db, Inl e)
      | Inr token \<Rightarrow>
          if truthy token then
            (case doc_ref token of
               Inl e \<Rightarrow> (db, Inl e)
             | Inr rsvpRef \<Rightarrow>
                 (case getDoc (read_up env) db rsvpRef of
                    Inl e \<Rightarrow> (db, Inl e)
                  | Inr None \<Rightarrow> (db, Inl RsvpNotFound)
                  | Inr (Some rsvpData) \<Rightarrow>
                      if rsvpData ''status'' = Some (FStr (js ''checked_in''))
                      then (db, Inr (AlreadyIn rsvpData))
                      else
                        (case updateDoc (write_up env) (interleaved env db) rsvpRef
                                (checkin_fields (write_time env)) of
                           Inl e \<Rightarrow> (interleaved env db, Inl e)
                         | Inr db' \<Rightarrow> (db', Inr (Done rsvpData)))))
          else (db, Inl NoTokenFound))"

definition handleCheckIn ::
  "checkin_env \<Rightarrow> jsval \<Rightarrow> firestore \<times> scanner \<Rightarrow> firestore \<times> scanner \<times> action list" where
  "handleCheckIn env qrData st =
     (let sc1 = (snd st)\<lparr>isProcessing := True, status := Processing\<rparr>;
          r = checkin_body env qrData (fst st);
          out = (case snd r of
                   Inr (AlreadyIn rsvpData) \<Rightarrow>
                     (sc1\<lparr>status := AlreadyCheckedIn (rsvpData ''name'')\<rparr>, [])
                 | Inr (Done rsvpData) \<Rightarrow>
                     (sc1\<lparr>status := CheckedIn (rsvpData ''name''),
                          lastScanResult := Some (rsvpData ''name'', rsvpData ''email'')\<rparr>,
                      [OnResultCheckedIn qrData (report_time env)])
                 | Inl e \<Rightarrow> (sc1\<lparr>status := CheckInFailed e\<rparr>, [OnError e]))
      in (fst r, (fst out)\<lparr>isProcessing := False\<rparr>, snd out @ [StatusResetTimer]))"

text \<open>
  The timer armed by \<open>handleCheckIn\<close>, when it fires. \<open>running\<close> is the value in the
  closure of \<open>handleCheckIn\<close>, not a field read at that moment.
\<close>

definition status_reset :: "bool \<Rightarrow> scanner \<Rightarrow> scanner" where
  "status_reset running_seen sc = (if running_seen then sc\<lparr>status := Hint\<rparr> else sc)"

text \<open>
  The decode callback, after the gates: parse the text, read \<open>t\<close> and \<open>token\<close>, and
  either start the check-in or report. The \<open>catch\<close> takes what \<open>JSON.parse\<close> throws and
  what the property reads throw.
\<close>

definition scan_text :: "jsstring \<Rightarrow> scanner \<Rightarrow> scanner \<times> action list" where
  "scan_text text sc =
     (case JSON_parse text of
        Inl e \<Rightarrow> (sc\<lparr>status := NotRsvp\<rparr>, [OnResult text])
      | Inr qrData \<Rightarrow>
          (case get_prop qrData (js ''t'') of
             Inl e \<Rightarrow> (sc\<lparr>status := NotRsvp\<rparr>, [OnResult text])
           | Inr t \<Rightarrow>
               if t = Some (JStr (js ''rsvp'')) then
                 (case get_prop qrData (js ''token'') of
                    Inl e \<Rightarrow> (sc\<lparr>status := NotRsvp\<rparr>, [OnResult text])
                  | Inr token \<Rightarrow>
                      if truthy token then (sc, [CheckIn qrData])
                      else (sc\<lparr>status := InvalidRsvp\<rparr>, [OnResult text]))
               else (sc\<lparr>status := InvalidRsvp\<rparr>, [OnResult text])))"

text \<open>
  The decode callback that \<open>start\<close> hands to the reader: \<open>result\<close> is the decoded text,
  or \<open>None\<close> for a frame without a code; \<open>now\<close> is \<open>Date.now()\<close>. The callback is a
  closure: \<open>cooldownMs\<close> and \<open>isProcessing\<close> are the values it closes over, taken as
  arguments here, while \<open>nextAllowedRef.current\<close> is a ref cell and is read and written in
  the state.
\<close>

definition on_decode ::
  "nat \<Rightarrow> bool \<Rightarrow> nat \<Rightarrow> jsstring option \<Rightarrow> scanner \<Rightarrow> scanner \<times> action list" where
  "on_decode cooldownMs isProcessing_seen now result sc =
     (case result of
        None \<Rightarrow> (sc, [])
      | Some text \<Rightarrow>
          if isProcessing_seen then (sc, [])
          else if now < nextAllowed sc then (sc, [])
          else scan_text text (sc\<lparr>nextAllowed := now + cooldownMs\<rparr>))"

text \<open>The callback called once for each decode event, in order, with what each call did.\<close>

fun run_decodes ::
  "nat \<Rightarrow> bool \<Rightarrow> (nat \<times> jsstring) list \<Rightarrow> scanner \<Rightarrow> scanner \<times> action list list" where
  "run_decodes cooldownMs isProcessing_seen [] sc = (sc, [])"
| "run_decodes cooldownMs isProcessing_seen (ev # evs) sc =
     (let r = on_decode cooldownMs isProcessing_seen (fst ev) (Some (snd ev)) sc;
          rs = run_decodes cooldownMs isProcessing_seen evs (fst r)
      in (fst rs, snd r # snd rs))"

definition initial_scanner :: scanner where
  "initial_scanner =
     \<lparr>nextAllowed = 0, running = False, status = Idle, lastScanResult = None,
      isProcessing = False\<rparr>"

section \<open>The plain QRScanner\<close>

record plain_scanner =
  nextAllowed_p :: nat
  running_p :: bool
  status_p :: status_msg

definition on_decode_plain ::
  "nat \<Rightarrow> nat \<Rightarrow> jsstring option \<Rightarrow> plain_scanner \<Rightarrow> plain_scanner \<times> action list" where
  "on_decode_plain cooldownMs now result sc =
     (case result of
        None \<Rightarrow> (sc, [])
      | Some text \<Rightarrow>
          if now < nextAllowed_p sc then (sc, [])
          else (sc\<lparr>nextAllowed_p := now + cooldownMs, status_p := FoundCode\<rparr>, [OnResult text]))"

fun run_decodes_plain ::
  "nat \<Rightarrow> (nat \<times> jsstring) list \<Rightarrow> plain_scanner \<Rightarrow> plain_scanner \<times> action list list" where
  "run_decodes_plain cooldownMs [] sc = (sc, [])"
| "run_decodes_plain cooldownMs (ev # evs) sc =
     (let r = on_decode_plain cooldownMs (fst ev) (Some (snd ev)) sc;
          rs = run_decodes_plain cooldownMs evs (fst r)
      in (fst rs, snd r # snd rs))"

definition initial_plain_scanner :: plain_scanner where
  "initial_plain_scanner = \<lparr>nextAllowed_p = 0, running_p = False, status_p = Idle\<rparr>"

section \<open>Scenarios\<close>

text \<open>
  Concrete inputs for the examples below: two guests, the token that \<open>makeToken\<close> builds
  from the bytes 0, 1, ..., 15, the payload of Ana's code as the scanner parses it, stores
  in which that token is free, taken by Ana's fresh record, or taken by Bob's record after
  his check-in, a second scanner that checks a token in at a given time, and renderers
  that always succeed or always fail.
\<close>

definition ana :: FormData where
  "ana = \<lparr>name = js ''Ana'', email = js ''a@x.com'', phone = js ''+1 5551234567'',
          confirmComing = True\<rparr>"

definition bob :: FormData where
  "bob = \<lparr>name = js ''Bob'', email = js ''bob@y.org'', phone = js ''5550000000'',
          confirmComing = True\<rparr>"

definition token_a :: jsstring where
  "token_a = js ''0123456789abcdef''"

definition qr_a :: jsval where
  "qr_a = JObj [(js ''t'', JStr (js ''rsvp'')), (js ''token'', JStr token_a),
                (js ''name'', JStr (js ''Ana'')), (js ''email'', JStr (js ''a@x.com'')),
                (js ''phone'', JStr (js ''+1 5551234567'')), (js ''coming'', JBool True)]"

definition invited_db :: firestore where
  "invited_db = [token_a \<mapsto> rsvp_record token_a ana 5]"

definition bob_checked_in_db :: firestore where
  "bob_checked_in_db = [token_a \<mapsto> rsvp_record token_a bob 1 ++ checkin_fields 2]"

definition other_scanner :: "jsstring \<Rightarrow> nat \<Rightarrow> firestore \<Rightarrow> firestore" where
  "other_scanner tok now db =
     (case updateDoc True db tok (checkin_fields now) of Inl e \<Rightarrow> db | Inr db' \<Rightarrow> db')"

definition quiet_env :: "nat \<Rightarrow> checkin_env" where
  "quiet_env now =
     \<lparr>read_up = True, interleaved = id, write_up = True, write_time = now,
      report_time = now + 1\<rparr>"

definition racing_env :: checkin_env where
  "racing_env =
     \<lparr>read_up = True, interleaved = other_scanner token_a 100, write_up = True,
      write_time = 200, report_time = 201\<rparr>"

definition render_ok :: "jsstring \<Rightarrow> error + jsstring" where
  "render_ok payload = Inr (js ''data:image/png;base64,'')"

definition render_fails :: "jsstring \<Rightarrow> error + jsstring" where
  "render_fails payload = Inl QRCodeError"

definition submit_env_ok :: submit_env where
  "submit_env_ok = \<lparr>entropy = of_nat, store_up = True, server_time = 5, toDataURL = render_ok\<rparr>"

definition submit_env_no_qr :: submit_env where
  "submit_env_no_qr =
     \<lparr>entropy = of_nat, store_up = True, server_time = 5, toDataURL = render_fails\<rparr>"

definition fresh_generator :: "FormData \<Rightarrow> generator" where
  "fresh_generator d =
     \<lparr>data = d, touched = Map.empty, qrUrl = None, isGenerating = False, lastToken = None,
      message = None\<rparr>"

text \<open>
  A scanner after \<open>start\<close> has acquired the camera, and the same scanner a moment after
  it has accepted a first code at time 1000: next-allowed is 1200, and \<open>handleCheckIn\<close>
  has set the busy flag and the processing message and is waiting for the store.
\<close>

definition started_scanner :: scanner where
  "started_scanner = initial_scanner\<lparr>running := True, status := Hint\<rparr>"

definition in_flight_scanner :: scanner where
  "in_flight_scanner =
     started_scanner\<lparr>nextAllowed := 1200, status := Processing, isProcessing := True\<rparr>"

text \<open>
  Three texts a code can carry: a payload whose token is the boolean \<open>true\<close>, a payload
  of another kind, and the payload that registration builds for Ana.
\<close>

definition token_true_text :: jsstring where
  \<open>token_true_text = js ''{"t":"rsvp","token":true}''\<close>

definition menu_text :: jsstring where
  \<open>menu_text = js ''{"t":"menu","token":"abc"}''\<close>

definition ana_payload_text :: jsstring where
  \<open>ana_payload_text =
     js ''{"t":"rsvp","token":"0123456789abcdef","name":"Ana","email":"a@x.com","phone":"+1 5551234567","coming":true}''\<close>

section \<open>Token generation\<close>

lemma length_alphabet: "length alphabet = 62"
  by (simp add: alphabet_def js_def)

text \<open>
  C8 (amended). For every length up to 65536, \<open>makeToken\<close> returns a string of exactly
  that many characters, the character at position \<open>i\<close> being the alphabet entry at the
  \<open>i\<close>-th random byte modulo 62, so every character is one of the 62 symbols
  \<open>0-9a-zA-Z\<close> and there is no separator; the default length is 16. For a longer request
  the secure random source refuses and \<open>makeToken\<close> throws.
\<close>

theorem makeToken_spec:
  "(len \<le> 65536 \<longrightarrow>
      makeToken (Some len) rnd = Inr (map (\<lambda>i. alphabet ! (unat (rnd i) mod 62)) [0..<len]) \<and>
      (\<exists>tok. makeToken (Some len) rnd = Inr tok \<and> length tok = len \<and> set tok \<subseteq> set alphabet)) \<and>
   (65536 < len \<longrightarrow> makeToken (Some len) rnd = Inl QuotaExceededError) \<and>
   makeToken None rnd = makeToken (Some 16) rnd \<and>
   alphabet = js ''0123456789abcdefghijklmnopqrstuvwxyzABCDEFGHIJKLMNOPQRSTUVWXYZ'' \<and>
   length alphabet = 62"
proof -
  have a: "makeToken (Some len) rnd = Inr (map (\<lambda>i. alphabet ! (unat (rnd i) mod 62)) [0..<len])"
    if "len \<le> 65536"
    using that by (simp add: makeToken_def getRandomValues_def length_alphabet comp_def)
  have b: "set (map (\<lambda>i. alphabet ! (unat (rnd i) mod 62)) [0..<len]) \<subseteq> set alphabet"
    by (auto simp: length_alphabet intro!: nth_mem)
  have c: "makeToken (Some len) rnd = Inl QuotaExceededError" if "65536 < len"
    using that by (simp add: makeToken_def getRandomValues_def)
  have d: "makeToken None rnd = makeToken (Some 16) rnd"
    by (simp add: makeToken_def)
  have e: "\<exists>tok. makeToken (Some len) rnd = Inr tok \<and> length tok = len \<and> set tok \<subseteq> set alphabet"
    if "len \<le> 65536"
    using a [OF that] b by simp
  have f: "alphabet = js ''0123456789abcdefghijklmnopqrstuvwxyzABCDEFGHIJKLMNOPQRSTUVWXYZ''"
    by (simp add: alphabet_def)
  from a c d e f length_alphabet show ?thesis
    by blast
qed

text \<open>
  Three bytes 0, 1, 2 give the token \<open>012\<close>; a request for 70000 bytes is refused.
\<close>

theorem makeToken_spec_witness:
  "makeToken (Some 3) of_nat = Inr (js ''012'') \<and>
   makeToken (Some 70000) of_nat = Inl QuotaExceededError"
  using makeToken_spec [of 3 of_nat] makeToken_spec [of 70000 of_nat]
  by (simp add: alphabet_def js_def upt_conv_Cons)

text \<open>
  C8 as stated fails for the length 65537: no string of 65537 characters is returned.
\<close>

theorem makeToken_quota_counterexample:
  "makeToken (Some 65537) of_nat = Inl QuotaExceededError"
  by (simp add: makeToken_def getRandomValues_def)

section \<open>The cooldown gate\<close>

lemma scan_text_nextAllowed: "nextAllowed (fst (scan_text raw sc)) = nextAllowed sc"
  by (simp add: scan_text_def split: sum.splits option.splits)

lemma scan_text_acts: "snd (scan_text raw sc) \<noteq> []"
  by (simp add: scan_text_def split: sum.splits option.splits)

lemma on_decode_accept:
  "nextAllowed sc \<le> now \<Longrightarrow>
   on_decode cd False now (Some raw) sc = scan_text raw (sc\<lparr>nextAllowed := now + cd\<rparr>)"
  by (simp add: on_decode_def)

lemma on_decode_discard:
  "now < nextAllowed sc \<Longrightarrow> on_decode cd busy now result sc = (sc, [])"
  by (simp add: on_decode_def split: option.splits)

text \<open>
  C4. A decode hit that arrives before the stored next-allowed time is discarded whatever
  its text is, by both scanners: the state is unchanged and nothing is called. The plain
  scanner accepts every other hit, and the check-in scanner every other hit that its
  busy test lets through; an accepted hit moves next-allowed to \<open>now + cooldownMs\<close>.
  From next-allowed 0 and with a cooldown of 200, of the hits at \<open>t\<close>, \<open>t + 1\<close>,
  \<open>t + 199\<close> and \<open>t + 201\<close> exactly the first and the last pass: the plain scanner hands
  these two texts to \<open>onResult\<close>, the check-in scanner acts on these two and on no
  other, and its next-allowed ends at \<open>t + 401\<close>.
\<close>

theorem cooldown_gate:
  "(now < nextAllowed sc \<longrightarrow> on_decode cd busy now (Some raw) sc = (sc, [])) \<and>
   (now < nextAllowed_p ps \<longrightarrow> on_decode_plain cd now (Some raw) ps = (ps, [])) \<and>
   (nextAllowed sc \<le> now \<longrightarrow>
      on_decode cd False now (Some raw) sc = scan_text raw (sc\<lparr>nextAllowed := now + cd\<rparr>) \<and>
      nextAllowed (fst (on_decode cd False now (Some raw) sc)) = now + cd \<and>
      snd (on_decode cd False now (Some raw) sc) \<noteq> []) \<and>
   (nextAllowed_p ps \<le> now \<longrightarrow>
      on_decode_plain cd now (Some raw) ps =
        (ps\<lparr>nextAllowed_p := now + cd, status_p := FoundCode\<rparr>, [OnResult raw])) \<and>
   snd (run_decodes_plain 200 [(t, a), (t + 1, b), (t + 199, c), (t + 201, d)]
          initial_plain_scanner) = [[OnResult a], [], [], [OnResult d]] \<and>
   map (\<lambda>acts. acts = [])
     (snd (run_decodes 200 False [(t, a), (t + 1, b), (t + 199, c), (t + 201, d)]
            initial_scanner)) =
     [False, True, True, False] \<and>
   nextAllowed (fst (run_decodes 200 False [(t, a), (t + 1, b), (t + 199, c), (t + 201, d)]
          initial_scanner)) = t + 401"
proof -
  have p1: "now < nextAllowed sc \<longrightarrow> on_decode cd busy now (Some raw) sc = (sc, [])"
    by (simp add: on_decode_discard)
  have p2: "now < nextAllowed_p ps \<longrightarrow> on_decode_plain cd now (Some raw) ps = (ps, [])"
    by (simp add: on_decode_plain_def)
  have p3: "nextAllowed sc \<le> now \<longrightarrow>
      on_decode cd False now (Some raw) sc = scan_text raw (sc\<lparr>nextAllowed := now + cd\<rparr>) \<and>
      nextAllowed (fst (on_decode cd False now (Some raw) sc)) = now + cd \<and>
      snd (on_decode cd False now (Some raw) sc) \<noteq> []"
    by (simp add: on_decode_accept scan_text_nextAllowed scan_text_acts)
  have p4: "nextAllowed_p ps \<le> now \<longrightarrow>
      on_decode_plain cd now (Some raw) ps =
        (ps\<lparr>nextAllowed_p := now + cd, status_p := FoundCode\<rparr>, [OnResult raw])"
    by (simp add: on_decode_plain_def)
  have p5: "snd (run_decodes_plain 200 [(t, a), (t + 1, b), (t + 199, c), (t + 201, d)]
          initial_plain_scanner) = [[OnResult a], [], [], [OnResult d]]"
    by (simp add: on_decode_plain_def initial_plain_scanner_def Let_def)
  define s1 where "s1 = fst (on_decode 200 False t (Some a) initial_scanner)"
  have e1: "on_decode 200 False t (Some a) initial_scanner =
              scan_text a (initial_scanner\<lparr>nextAllowed := t + 200\<rparr>)"
    by (rule on_decode_accept) (simp add: initial_scanner_def)
  have n1: "nextAllowed s1 = t + 200"
    unfolding s1_def e1
    by (simp add: scan_text_nextAllowed)
  have a1: "snd (on_decode 200 False t (Some a) initial_scanner) \<noteq> []"
    by (simp add: e1 scan_text_acts)
  have e2: "on_decode 200 False (Suc t) (Some b) s1 = (s1, [])"
    by (rule on_decode_discard) (simp add: n1)
  have e3: "on_decode 200 False (t + 199) (Some c) s1 = (s1, [])"
    by (rule on_decode_discard) (simp add: n1)
  have e4: "on_decode 200 False (t + 201) (Some d) s1 =
              scan_text d (s1\<lparr>nextAllowed := t + 201 + 200\<rparr>)"
    by (rule on_decode_accept) (simp add: n1)
  have a4: "snd (on_decode 200 False (t + 201) (Some d) s1) \<noteq> []"
    by (simp add: e4 scan_text_acts)
  have n4: "nextAllowed (fst (on_decode 200 False (t + 201) (Some d) s1)) = t + 401"
    by (simp add: e4 scan_text_nextAllowed)
  have p6: "map (\<lambda>acts. acts = [])
     (snd (run_decodes 200 False [(t, a), (t + 1, b), (t + 199, c), (t + 201, d)]
            initial_scanner)) =
     [False, True, True, False]"
    using a1 a4 by (simp add: Let_def s1_def [symmetric] e2 e3)
  have p7: "nextAllowed (fst (run_decodes 200 False [(t, a), (t + 1, b), (t + 199, c), (t + 201, d)]
          initial_scanner)) = t + 401"
    using n4 by (simp add: Let_def s1_def [symmetric] e2 e3)
  from p1 p2 p3 p4 p5 p6 p7 show ?thesis by blast
qed

text \<open>
  At time 1000 a hit is discarded under a deadline of 1100 and accepted under the initial
  deadline 0, which it moves to 1200.
\<close>

theorem cooldown_gate_witness:
  "(1000::nat) < nextAllowed (initial_scanner\<lparr>nextAllowed := 1100\<rparr>) \<and>
   on_decode 200 False 1000 (Some (js ''x'')) (initial_scanner\<lparr>nextAllowed := 1100\<rparr>) =
     (initial_scanner\<lparr>nextAllowed := 1100\<rparr>, []) \<and>
   (1000::nat) < nextAllowed_p (initial_plain_scanner\<lparr>nextAllowed_p := 1100\<rparr>) \<and>
   on_decode_plain 200 1000 (Some (js ''x'')) (initial_plain_scanner\<lparr>nextAllowed_p := 1100\<rparr>) =
     (initial_plain_scanner\<lparr>nextAllowed_p := 1100\<rparr>, []) \<and>
   nextAllowed initial_scanner \<le> 1000 \<and>
   nextAllowed (fst (on_decode 200 False 1000 (Some (js ''x'')) initial_scanner)) = 1000 + 200 \<and>
   nextAllowed_p initial_plain_scanner \<le> 1000 \<and>
   on_decode_plain 200 1000 (Some (js ''x'')) initial_plain_scanner =
     (initial_plain_scanner\<lparr>nextAllowed_p := 1000 + 200, status_p := FoundCode\<rparr>,
      [OnResult (js ''x'')]) \<and>
   snd (run_decodes_plain 200
          [(1000, js ''a''), (1000 + 1, js ''b''), (1000 + 199, js ''c''), (1000 + 201, js ''d'')]
          initial_plain_scanner) = [[OnResult (js ''a'')], [], [], [OnResult (js ''d'')]]"
proof -
  have h1: "(1000::nat) < nextAllowed (initial_scanner\<lparr>nextAllowed := 1100\<rparr>)"
    by simp
  have h2: "(1000::nat) < nextAllowed_p (initial_plain_scanner\<lparr>nextAllowed_p := 1100\<rparr>)"
    by simp
  have h3: "nextAllowed initial_scanner \<le> 1000"
    by (simp add: initial_scanner_def)
  have h4: "nextAllowed_p initial_plain_scanner \<le> 1000"
    by (simp add: initial_plain_scanner_def)
  from h1 h2 h3 h4
    cooldown_gate [of 1000 "initial_scanner\<lparr>nextAllowed := 1100\<rparr>" 200 False "js ''x''"
      "initial_plain_scanner\<lparr>nextAllowed_p := 1100\<rparr>" 1000 "js ''a''" "js ''b''" "js ''c''" "js ''d''"]
    cooldown_gate [of 1000 initial_scanner 200 False "js ''x''"
      initial_plain_scanner 1000 "js ''a''" "js ''b''" "js ''c''" "js ''d''"]
  show ?thesis by blast
qed

section \<open>Check-in\<close>

lemma checkin_body_token:
  assumes "get_prop qrData (js ''token'') = Inr (Some (JStr tok))" "tok \<noteq> []"
  shows "checkin_body env qrData db =
     (case getDoc (read_up env) db tok of
        Inl e \<Rightarrow> (db, Inl e)
      | Inr None \<Rightarrow> (db, Inl RsvpNotFound)
      | Inr (Some rsvpData) \<Rightarrow>
          if rsvpData ''status'' = Some (FStr (js ''checked_in''))
          then (db, Inr (AlreadyIn rsvpData))
          else
            (case updateDoc (write_up env) (interleaved env db) tok
                    (checkin_fields (write_time env)) of
               Inl e \<Rightarrow> (interleaved env db, Inl e)
             | Inr db' \<Rightarrow> (db', Inr (Done rsvpData))))"
  using assms by (simp add: checkin_body_def truthy_def doc_ref_def)

lemma checkin_body_already:
  assumes "get_prop qrData (js ''token'') = Inr (Some (JStr tok))" "tok \<noteq> []"
    and "read_up env" "db tok = Some d" "d ''status'' = Some (FStr (js ''checked_in''))"
  shows "checkin_body env qrData db = (db, Inr (AlreadyIn d))"
  using assms by (simp add: checkin_body_token getDoc_def)

lemma checkin_body_write:
  assumes "get_prop qrData (js ''token'') = Inr (Some (JStr tok))" "tok \<noteq> []"
    and "read_up env" "write_up env" "db tok = Some d"
    and "d ''status'' \<noteq> Some (FStr (js ''checked_in''))"
    and "interleaved env db tok = Some d'"
  shows "checkin_body env qrData db =
     ((interleaved env db)(tok \<mapsto> d' ++ checkin_fields (write_time env)), Inr (Done d))"
  using assms by (simp add: checkin_body_token getDoc_def updateDoc_def)

lemma checkin_body_gone:
  assumes "get_prop qrData (js ''token'') = Inr (Some (JStr tok))" "tok \<noteq> []"
    and "read_up env" "write_up env" "db tok = Some d"
    and "d ''status'' \<noteq> Some (FStr (js ''checked_in''))"
    and "interleaved env db tok = None"
  shows "checkin_body env qrData db = (interleaved env db, Inl FirestoreNotFound)"
  using assms by (simp add: checkin_body_token getDoc_def updateDoc_def)

lemma checkin_fields_simps:
  "checkin_fields now ''coming'' = Some (FBool True)"
  "checkin_fields now ''status'' = Some (FStr (js ''checked_in''))"
  "checkin_fields now ''checkedInAt'' = Some (FTime now)"
  "checkin_fields now ''checkedInBy'' = Some (FStr (js ''scanner''))"
  by (simp_all add: checkin_fields_def)

lemma checkin_fields_other:
  "f \<notin> {''coming'', ''status'', ''checkedInAt'', ''checkedInBy''} \<Longrightarrow> checkin_fields now f = None"
  by (simp add: checkin_fields_def)

lemma invited_not_checked_in: "FStr (js ''invited'') \<noteq> FStr (js ''checked_in'')"
  by (simp add: js_def)

text \<open>
  C2. A check-in whose payload carries the token of a record that is already
  \<open>checked_in\<close> reports "already checked in", leaves the store as it is and calls neither
  \<open>onResult\<close> nor \<open>onError\<close>. On a record that is \<open>invited\<close>, with the store answering
  and no other client writing in between, a first check-in reports success and a second
  one, run on what the first left, reports "already checked in" and leaves the store as
  the first left it, so \<open>checkedInAt\<close> is the time of the first write in both
  observations.
\<close>

theorem checkIn_idempotent:
  assumes tok: "get_prop qrData (js ''token'') = Inr (Some (JStr tok))" "tok \<noteq> []"
    and up: "read_up env" "read_up env'"
    and rec: "db tok = Some d"
  shows "(d ''status'' = Some (FStr (js ''checked_in'')) \<longrightarrow>
            fst (handleCheckIn env qrData (db, sc)) = db \<and>
            status (fst (snd (handleCheckIn env qrData (db, sc)))) = AlreadyCheckedIn (d ''name'') \<and>
            snd (snd (handleCheckIn env qrData (db, sc))) = [StatusResetTimer]) \<and>
         (d ''status'' = Some (FStr (js ''invited'')) \<and> write_up env \<and> interleaved env db = db \<longrightarrow>
            status (fst (snd (handleCheckIn env qrData (db, sc)))) = CheckedIn (d ''name'') \<and>
            status (fst (snd (handleCheckIn env' qrData
              (fst (handleCheckIn env qrData (db, sc)), fst (snd (handleCheckIn env qrData (db, sc)))))))
              = AlreadyCheckedIn (d ''name'') \<and>
            fst (handleCheckIn env' qrData
              (fst (handleCheckIn env qrData (db, sc)), fst (snd (handleCheckIn env qrData (db, sc)))))
              = fst (handleCheckIn env qrData (db, sc)) \<and>
            (\<exists>d1. fst (handleCheckIn env qrData (db, sc)) tok = Some d1 \<and>
                  d1 ''checkedInAt'' = Some (FTime (write_time env))))"
proof -
  have A: "fst (handleCheckIn env qrData (db, sc)) = db \<and>
           status (fst (snd (handleCheckIn env qrData (db, sc)))) = AlreadyCheckedIn (d ''name'') \<and>
           snd (snd (handleCheckIn env qrData (db, sc))) = [StatusResetTimer]"
    if "d ''status'' = Some (FStr (js ''checked_in''))"
    using checkin_body_already [where db=db and tok=tok and d=d, OF tok up(1) rec that]
    by (simp add: handleCheckIn_def)
  have B: "status (fst (snd (handleCheckIn env qrData (db, sc)))) = CheckedIn (d ''name'') \<and>
            status (fst (snd (handleCheckIn env' qrData
              (fst (handleCheckIn env qrData (db, sc)), fst (snd (handleCheckIn env qrData (db, sc)))))))
              = AlreadyCheckedIn (d ''name'') \<and>
            fst (handleCheckIn env' qrData
              (fst (handleCheckIn env qrData (db, sc)), fst (snd (handleCheckIn env qrData (db, sc)))))
              = fst (handleCheckIn env qrData (db, sc)) \<and>
            (\<exists>d1. fst (handleCheckIn env qrData (db, sc)) tok = Some d1 \<and>
                  d1 ''checkedInAt'' = Some (FTime (write_time env)))"
    if inv: "d ''status'' = Some (FStr (js ''invited''))" and w: "write_up env"
      and q: "interleaved env db = db"
  proof -
    define d1 where "d1 = d ++ checkin_fields (write_time env)"
    define db1 where "db1 = db(tok \<mapsto> d1)"
    have ne: "d ''status'' \<noteq> Some (FStr (js ''checked_in''))"
      using inv invited_not_checked_in by simp
    have i: "interleaved env db tok = Some d"
      using q rec by simp
    have b1: "checkin_body env qrData db = (db1, Inr (Done d))"
      using checkin_body_write [where db=db and tok=tok and d=d and d'=d, OF tok up(1) w rec ne i] q
      by (simp add: db1_def d1_def)
    have r1: "fst (handleCheckIn env qrData (db, sc)) = db1"
      and s1: "status (fst (snd (handleCheckIn env qrData (db, sc)))) = CheckedIn (d ''name'')"
      using b1 by (simp_all add: handleCheckIn_def)
    have d1s: "d1 ''status'' = Some (FStr (js ''checked_in''))"
      and d1n: "d1 ''name'' = d ''name''"
      and d1t: "d1 ''checkedInAt'' = Some (FTime (write_time env))"
      by (simp_all add: d1_def map_add_def checkin_fields_def)
    have l1: "db1 tok = Some d1" by (simp add: db1_def)
    have b2: "checkin_body env' qrData db1 = (db1, Inr (AlreadyIn d1))"
      by (rule checkin_body_already [where db=db1 and tok=tok and d=d1, OF tok up(2) l1 d1s])
    have r2: "fst (handleCheckIn env' qrData (db1, sc')) = db1"
      and s2: "status (fst (snd (handleCheckIn env' qrData (db1, sc')))) = AlreadyCheckedIn (d ''name'')"
      for sc'
      using b2 d1n by (simp_all add: handleCheckIn_def)
    show ?thesis
      using s1 r2 s2 l1 d1t unfolding r1 by blast
  qed
  from A B show ?thesis by blast
qed

lemma qr_a_token: "get_prop qr_a (js ''token'') = Inr (Some (JStr token_a))"
  by (simp add: get_prop_def qr_a_def js_def)

lemma token_a_nonempty: "token_a \<noteq> []"
  by (simp add: token_a_def js_def)

lemma trim_Ana: "trim (js ''Ana'') = js ''Ana''"
  by (simp add: trim_def is_space_def js_def)

lemma trim_Bob: "trim (js ''Bob'') = js ''Bob''"
  by (simp add: trim_def is_space_def js_def)

lemma ana_record:
  "rsvp_record tok ana created ''status'' = Some (FStr (js ''invited''))"
  "rsvp_record tok ana created ''name'' = Some (FStr (js ''Ana''))"
  by (simp_all add: rsvp_record_def ana_def trim_Ana)

lemma bob_checked_in:
  "(rsvp_record tok bob created ++ checkin_fields now) ''status'' = Some (FStr (js ''checked_in''))"
  "(rsvp_record tok bob created ++ checkin_fields now) ''name'' = Some (FStr (js ''Bob''))"
  by (simp_all add: rsvp_record_def bob_def trim_Bob checkin_fields_def map_add_def)

text \<open>
  Bob's record is already checked in: the store stays as it is. Ana's record is invited:
  success, then "already checked in".
\<close>

theorem checkIn_idempotent_witness:
  "fst (handleCheckIn (quiet_env 100) qr_a (bob_checked_in_db, initial_scanner)) = bob_checked_in_db \<and>
   status (fst (snd (handleCheckIn (quiet_env 100) qr_a (bob_checked_in_db, initial_scanner)))) =
     AlreadyCheckedIn (Some (FStr (js ''Bob''))) \<and>
   status (fst (snd (handleCheckIn (quiet_env 100) qr_a (invited_db, initial_scanner)))) =
     CheckedIn (Some (FStr (js ''Ana''))) \<and>
   status (fst (snd (handleCheckIn (quiet_env 300) qr_a
     (fst (handleCheckIn (quiet_env 100) qr_a (invited_db, initial_scanner)),
      fst (snd (handleCheckIn (quiet_env 100) qr_a (invited_db, initial_scanner))))))) =
     AlreadyCheckedIn (Some (FStr (js ''Ana'')))"
proof -
  have up: "read_up (quiet_env n)" "write_up (quiet_env n)" "interleaved (quiet_env n) db = db"
    for n db
    by (simp_all add: quiet_env_def)
  have l1: "bob_checked_in_db token_a = Some (rsvp_record token_a bob 1 ++ checkin_fields 2)"
    by (simp add: bob_checked_in_db_def)
  have l2: "invited_db token_a = Some (rsvp_record token_a ana 5)"
    by (simp add: invited_db_def)
  from checkIn_idempotent [where db = bob_checked_in_db and tok = token_a and env = "quiet_env 100"
      and env' = "quiet_env 300" and sc = initial_scanner,
      OF qr_a_token token_a_nonempty up(1) up(1) l1]
    checkIn_idempotent [where db = invited_db and tok = token_a and env = "quiet_env 100"
      and env' = "quiet_env 300" and sc = initial_scanner,
      OF qr_a_token token_a_nonempty up(1) up(1) l2]
    up(2) [of 100] up(3) [of 100 invited_db] ana_record [of token_a 5] bob_checked_in [of token_a 1 2]
  show ?thesis by simp
qed

text \<open>
  C1 (amended). When the read finds the record with a status other than \<open>checked_in\<close>,
  the update that follows is unconditional: whatever the record holds when the update
  arrives, and whatever its status is by then, the update overwrites \<open>status\<close> with
  \<open>checked_in\<close>, \<open>coming\<close> with true and \<open>checkedInAt\<close> with the current time (and
  \<open>checkedInBy\<close>, see C9), and the check-in reports success; there is no stale outcome
  and no second read. Only when the record no longer exists does the update fail, and the
  check-in then reports the failure.
\<close>

theorem checkIn_unconditional_write:
  assumes tok: "get_prop qrData (js ''token'') = Inr (Some (JStr tok))" "tok \<noteq> []"
    and up: "read_up env" "write_up env"
    and rec: "db tok = Some d" "d ''status'' \<noteq> Some (FStr (js ''checked_in''))"
  shows "(interleaved env db tok = Some d' \<longrightarrow>
            fst (handleCheckIn env qrData (db, sc)) =
              (interleaved env db)(tok \<mapsto> d' ++ checkin_fields (write_time env)) \<and>
            status (fst (snd (handleCheckIn env qrData (db, sc)))) = CheckedIn (d ''name'') \<and>
            (d' ++ checkin_fields (write_time env)) ''status'' = Some (FStr (js ''checked_in'')) \<and>
            (d' ++ checkin_fields (write_time env)) ''coming'' = Some (FBool True) \<and>
            (d' ++ checkin_fields (write_time env)) ''checkedInAt'' = Some (FTime (write_time env))) \<and>
         (interleaved env db tok = None \<longrightarrow>
            fst (handleCheckIn env qrData (db, sc)) = interleaved env db \<and>
            status (fst (snd (handleCheckIn env qrData (db, sc)))) = CheckInFailed FirestoreNotFound)"
proof -
  have A: "fst (handleCheckIn env qrData (db, sc)) =
              (interleaved env db)(tok \<mapsto> d' ++ checkin_fields (write_time env)) \<and>
            status (fst (snd (handleCheckIn env qrData (db, sc)))) = CheckedIn (d ''name'')"
    if "interleaved env db tok = Some d'"
    using checkin_body_write [where db = db and tok = tok and d = d and d' = d',
        OF tok up rec that]
    by (simp add: handleCheckIn_def)
  have B: "(d' ++ checkin_fields (write_time env)) ''status'' = Some (FStr (js ''checked_in'')) \<and>
           (d' ++ checkin_fields (write_time env)) ''coming'' = Some (FBool True) \<and>
           (d' ++ checkin_fields (write_time env)) ''checkedInAt'' = Some (FTime (write_time env))"
    by (simp add: map_add_def checkin_fields_def)
  have C: "fst (handleCheckIn env qrData (db, sc)) = interleaved env db \<and>
            status (fst (snd (handleCheckIn env qrData (db, sc)))) = CheckInFailed FirestoreNotFound"
    if "interleaved env db tok = None"
    using checkin_body_gone [where db = db and tok = tok and d = d, OF tok up rec that]
    by (simp add: handleCheckIn_def)
  from A B C show ?thesis by blast
qed

lemma racing_store:
  "interleaved racing_env invited_db token_a = Some (rsvp_record token_a ana 5 ++ checkin_fields 100)"
  by (simp add: racing_env_def other_scanner_def updateDoc_def invited_db_def)

text \<open>
  Another scanner checks Ana in at time 100, between this scanner's read and its update at
  time 200: the update is applied on top of the other one.
\<close>

theorem checkIn_unconditional_write_witness:
  "the (interleaved racing_env invited_db token_a) ''status'' = Some (FStr (js ''checked_in'')) \<and>
   fst (handleCheckIn racing_env qr_a (invited_db, initial_scanner)) =
     (interleaved racing_env invited_db)
       (token_a \<mapsto> (rsvp_record token_a ana 5 ++ checkin_fields 100) ++ checkin_fields 200) \<and>
   status (fst (snd (handleCheckIn racing_env qr_a (invited_db, initial_scanner)))) =
     CheckedIn (Some (FStr (js ''Ana'')))"
proof -
  have up: "read_up racing_env" "write_up racing_env" "write_time racing_env = 200"
    by (simp_all add: racing_env_def)
  have l: "invited_db token_a = Some (rsvp_record token_a ana 5)"
    by (simp add: invited_db_def)
  have ne: "rsvp_record token_a ana 5 ''status'' \<noteq> Some (FStr (js ''checked_in''))"
    by (simp add: ana_record js_def)
  have st: "(rsvp_record token_a ana 5 ++ checkin_fields 100) ''status'' = Some (FStr (js ''checked_in''))"
    by (simp add: map_add_def checkin_fields_def)
  from checkIn_unconditional_write [where db = invited_db and tok = token_a and env = racing_env
      and d' = "rsvp_record token_a ana 5 ++ checkin_fields 100" and sc = initial_scanner,
      OF qr_a_token token_a_nonempty up(1) up(2) l ne]
    racing_store up(3) ana_record(2) [of token_a 5] st
  show ?thesis by simp
qed

text \<open>
  C1 as stated fails in that run: when the update arrives the status is \<open>checked_in\<close>,
  not \<open>invited\<close>, with \<open>checkedInAt\<close> 100; the update is applied all the same, it moves
  \<open>checkedInAt\<close> to 200, and the scanner reports success, not "already checked in".
\<close>

theorem checkIn_race_counterexample:
  "the (interleaved racing_env invited_db token_a) ''status'' = Some (FStr (js ''checked_in'')) \<and>
   the (interleaved racing_env invited_db token_a) ''checkedInAt'' = Some (FTime 100) \<and>
   the (fst (handleCheckIn racing_env qr_a (invited_db, initial_scanner)) token_a) ''checkedInAt'' =
     Some (FTime 200) \<and>
   status (fst (snd (handleCheckIn racing_env qr_a (invited_db, initial_scanner)))) =
     CheckedIn (Some (FStr (js ''Ana'')))"
proof -
  have b: "checkin_body racing_env qr_a invited_db =
      ((interleaved racing_env invited_db)
         (token_a \<mapsto> (rsvp_record token_a ana 5 ++ checkin_fields 100) ++ checkin_fields 200),
       Inr (Done (rsvp_record token_a ana 5)))"
    using checkin_body_write [where db = invited_db and tok = token_a and env = racing_env
        and d = "rsvp_record token_a ana 5" and d' = "rsvp_record token_a ana 5 ++ checkin_fields 100",
        OF qr_a_token token_a_nonempty]
      racing_store
    by (simp add: racing_env_def invited_db_def ana_record js_def)
  have c: "(rsvp_record token_a ana 5 ++ checkin_fields 100) ''status'' = Some (FStr (js ''checked_in''))"
      "(rsvp_record token_a ana 5 ++ checkin_fields 100) ''checkedInAt'' = Some (FTime 100)"
      "((rsvp_record token_a ana 5 ++ checkin_fields 100) ++ checkin_fields 200) ''checkedInAt'' = Some (FTime 200)"
    by (simp_all add: map_add_def checkin_fields_def)
  show ?thesis
    using c by (simp add: handleCheckIn_def b racing_store ana_record)
qed

lemma rsvp_record_dom:
  "dom (rsvp_record tok form created) =
     {''t'', ''token'', ''name'', ''email'', ''phone'', ''coming'', ''status'', ''createdAt''}"
  by (auto simp: rsvp_record_def split: if_splits)

lemma checkin_body_Done:
  assumes "checkin_body env qrData db = (db', Inr (Done d))"
  shows "\<exists>tok old. get_prop qrData (js ''token'') = Inr (Some (JStr tok)) \<and>
           db tok = Some d \<and>
           interleaved env db tok = Some old \<and>
           db' = (interleaved env db)(tok \<mapsto> old ++ checkin_fields (write_time env))"
  using assms
  by (auto simp: checkin_body_def doc_ref_def getDoc_def updateDoc_def
           split: sum.splits option.splits if_splits jsval.splits)

text \<open>
  C9. When the \<open>try\<close> block of a check-in completes its update, the record of the token
  is the one the store held when the update arrived with four fields overwritten:
  \<open>coming\<close> with true, \<open>status\<close> with \<open>checked_in\<close>, \<open>checkedInAt\<close> with the time of the
  write and \<open>checkedInBy\<close> with \<open>scanner\<close>. Every other field, \<open>token\<close>, \<open>name\<close>, \<open>email\<close>,
  \<open>phone\<close> and \<open>createdAt\<close> among them, is as it was, as is every other record.
  \<open>checkedInBy\<close> is not a field of the record that registration writes.
\<close>

theorem checkin_write_frame:
  assumes "checkin_body env qrData db = (db', Inr (Done d))"
  shows "\<exists>tok old new.
           get_prop qrData (js ''token'') = Inr (Some (JStr tok)) \<and>
           interleaved env db tok = Some old \<and> db' tok = Some new \<and>
           new ''coming'' = Some (FBool True) \<and>
           new ''status'' = Some (FStr (js ''checked_in'')) \<and>
           new ''checkedInAt'' = Some (FTime (write_time env)) \<and>
           new ''checkedInBy'' = Some (FStr (js ''scanner'')) \<and>
           (\<forall>f. f \<notin> {''coming'', ''status'', ''checkedInAt'', ''checkedInBy''} \<longrightarrow> new f = old f) \<and>
           new ''token'' = old ''token'' \<and> new ''name'' = old ''name'' \<and>
           new ''email'' = old ''email'' \<and> new ''phone'' = old ''phone'' \<and>
           new ''createdAt'' = old ''createdAt'' \<and>
           (\<forall>k. k \<noteq> tok \<longrightarrow> db' k = interleaved env db k) \<and>
           ''checkedInBy'' \<notin> dom (rsvp_record tok form created)"
proof -
  from checkin_body_Done [OF assms] obtain tok old where
    t: "get_prop qrData (js ''token'') = Inr (Some (JStr tok))"
    and o: "interleaved env db tok = Some old"
    and n: "db' = (interleaved env db)(tok \<mapsto> old ++ checkin_fields (write_time env))"
    by blast
  define new where "new = old ++ checkin_fields (write_time env)"
  have l: "db' tok = Some new" by (simp add: n new_def)
  have w: "new ''coming'' = Some (FBool True)"
    "new ''status'' = Some (FStr (js ''checked_in''))"
    "new ''checkedInAt'' = Some (FTime (write_time env))"
    "new ''checkedInBy'' = Some (FStr (js ''scanner''))"
    by (simp_all add: new_def map_add_def checkin_fields_simps)
  have fr: "new f = old f"
    if "f \<notin> {''coming'', ''status'', ''checkedInAt'', ''checkedInBy''}" for f
    using checkin_fields_other [OF that] by (simp add: new_def map_add_def)
  have k: "new ''token'' = old ''token''" "new ''name'' = old ''name''"
    "new ''email'' = old ''email''" "new ''phone'' = old ''phone''"
    "new ''createdAt'' = old ''createdAt''"
    by (simp_all add: fr)
  have ot: "db' k = interleaved env db k" if "k \<noteq> tok" for k
    using that by (simp add: n)
  have nb: "''checkedInBy'' \<notin> dom (rsvp_record tok form created)"
    by (simp add: rsvp_record_dom)
  from t o l w fr k ot nb show ?thesis by blast
qed

text \<open>
  Ana's check-in at time 100.
\<close>

theorem checkin_write_frame_witness:
  "checkin_body (quiet_env 100) qr_a invited_db =
     (invited_db(token_a \<mapsto> rsvp_record token_a ana 5 ++ checkin_fields 100),
      Inr (Done (rsvp_record token_a ana 5))) \<and>
   (\<exists>new. (invited_db(token_a \<mapsto> rsvp_record token_a ana 5 ++ checkin_fields 100)) token_a = Some new \<and>
      new ''checkedInBy'' = Some (FStr (js ''scanner'')) \<and>
      new ''name'' = Some (FStr (js ''Ana'')))"
proof -
  have b: "checkin_body (quiet_env 100) qr_a invited_db =
     (invited_db(token_a \<mapsto> rsvp_record token_a ana 5 ++ checkin_fields 100),
      Inr (Done (rsvp_record token_a ana 5)))"
    using checkin_body_write [where db = invited_db and tok = token_a and env = "quiet_env 100"
        and d = "rsvp_record token_a ana 5" and d' = "rsvp_record token_a ana 5",
        OF qr_a_token token_a_nonempty]
    by (simp add: quiet_env_def invited_db_def ana_record js_def)
  have i: "interleaved (quiet_env 100) invited_db token_a = Some (rsvp_record token_a ana 5)"
    by (simp add: quiet_env_def invited_db_def)
  from checkin_write_frame [OF b, of ana 5] qr_a_token i ana_record(2) [of token_a 5] b
  show ?thesis by (auto simp: js_def)
qed

section \<open>Registration\<close>

lemma makeToken_16:
  "makeToken (Some 16) rnd = Inr (map (\<lambda>i. alphabet ! (unat (rnd i) mod 62)) [0..<16])"
  by (simp add: makeToken_def getRandomValues_def length_alphabet comp_def)

lemma submit_body_stored:
  assumes "store_up env" "makeToken (Some 16) (entropy env) = Inr tok"
  shows "submit_body env d db =
     (db(tok \<mapsto> rsvp_record tok d (server_time env)),
      (case toDataURL env (rsvp_payload tok d) of
         Inl e \<Rightarrow> Inl e
       | Inr url \<Rightarrow> Inr (url, tok)))"
  using assms by (simp add: submit_body_def setDoc_def split: sum.splits)

lemma submit_body_store_down:
  assumes "\<not> store_up env"
  shows "submit_body env d db = (db, Inl FirestoreUnavailable)"
  using assms by (simp add: submit_body_def setDoc_def makeToken_16)

lemma handleSubmit_valid:
  assumes "isValid (data g)"
  shows "fst (handleSubmit env (db, g)) = fst (submit_body env (data g) db)"
    and "message (snd (handleSubmit env (db, g))) =
           (case snd (submit_body env (data g) db) of
              Inl e \<Rightarrow> Some FailedToGenerate | Inr r \<Rightarrow> Some SavedAndGenerated)"
    and "qrUrl (snd (handleSubmit env (db, g))) =
           (case snd (submit_body env (data g) db) of
              Inl e \<Rightarrow> qrUrl g | Inr r \<Rightarrow> Some (fst r))"
    and "lastToken (snd (handleSubmit env (db, g))) =
           (case snd (submit_body env (data g) db) of
              Inl e \<Rightarrow> lastToken g | Inr r \<Rightarrow> Some (snd r))"
    and "\<not> isGenerating (snd (handleSubmit env (db, g)))"
  using assms by (simp_all add: handleSubmit_def Let_def split: sum.splits prod.splits)

text \<open>
  C3 (amended). Registration stores the new record with an unconditional write under a
  freshly generated token of 16 characters: whatever the store holds, and in particular
  when a record with that token exists, the write succeeds and the store afterwards maps
  the token to the new record; when the code is rendered too, the form reports success.
  The token is generated without looking at the store, and nothing rejects a token that is
  already taken.
\<close>

theorem registration_overwrites:
  assumes "isValid (data g)" "store_up env"
  shows "\<exists>tok. makeToken (Some 16) (entropy env) = Inr tok \<and> length tok = 16 \<and>
           fst (handleSubmit env (db, g)) = db(tok \<mapsto> rsvp_record tok (data g) (server_time env)) \<and>
           (\<forall>url. toDataURL env (rsvp_payload tok (data g)) = Inr url \<longrightarrow>
              message (snd (handleSubmit env (db, g))) = Some SavedAndGenerated \<and>
              lastToken (snd (handleSubmit env (db, g))) = Some tok \<and>
              qrUrl (snd (handleSubmit env (db, g))) = Some url)"
proof -
  define tok where "tok = map (\<lambda>i. alphabet ! (unat (entropy env i) mod 62)) [0..<16]"
  have t: "makeToken (Some 16) (entropy env) = Inr tok"
    by (simp add: makeToken_16 tok_def)
  have l: "length tok = 16" by (simp add: tok_def)
  note b = submit_body_stored [OF assms(2) t]
  have s: "fst (handleSubmit env (db, g)) = db(tok \<mapsto> rsvp_record tok (data g) (server_time env))"
    by (simp add: handleSubmit_valid(1) [OF assms(1)] b)
  have u: "message (snd (handleSubmit env (db, g))) = Some SavedAndGenerated \<and>
           lastToken (snd (handleSubmit env (db, g))) = Some tok \<and>
           qrUrl (snd (handleSubmit env (db, g))) = Some url"
    if "toDataURL env (rsvp_payload tok (data g)) = Inr url" for url
    using that by (simp add: handleSubmit_valid [OF assms(1)] b)
  from t l s u show ?thesis by blast
qed

lemma token_of_nat: "makeToken (Some 16) of_nat = Inr token_a"
  by (simp add: makeToken_16 token_a_def alphabet_def js_def upt_conv_Cons)

lemma isValid_ana: "isValid ana"
  by (simp add: isValid_def ana_def trim_def emailOk_def phoneOk_def local_char_def
      phone_char_def is_space_def js_def)

text \<open>
  Ana registers while the token that the generator draws is taken by Bob's record.
\<close>

theorem registration_overwrites_witness:
  "isValid (data (fresh_generator ana)) \<and> store_up submit_env_ok \<and>
   bob_checked_in_db token_a \<noteq> None \<and>
   fst (handleSubmit submit_env_ok (bob_checked_in_db, fresh_generator ana)) =
     bob_checked_in_db(token_a \<mapsto> rsvp_record token_a ana 5)"
proof -
  have v: "isValid (data (fresh_generator ana))"
    by (simp add: fresh_generator_def isValid_ana)
  have u: "store_up submit_env_ok" "entropy submit_env_ok = of_nat" "server_time submit_env_ok = 5"
    by (simp_all add: submit_env_ok_def)
  have d: "data (fresh_generator ana) = ana"
    by (simp add: fresh_generator_def)
  have b: "bob_checked_in_db token_a \<noteq> None"
    by (simp add: bob_checked_in_db_def)
  from registration_overwrites [OF v u(1), of bob_checked_in_db] token_of_nat u d v b
  show ?thesis by auto
qed

text \<open>
  C3 as stated fails there: the token belongs to Bob's checked-in record, the write does
  not fail, the form reports success, and the record under the token is now Ana's, with
  status \<open>invited\<close>.
\<close>

theorem registration_overwrite_counterexample:
  "the (bob_checked_in_db token_a) ''name'' = Some (FStr (js ''Bob'')) \<and>
   the (bob_checked_in_db token_a) ''status'' = Some (FStr (js ''checked_in'')) \<and>
   message (snd (handleSubmit submit_env_ok (bob_checked_in_db, fresh_generator ana))) =
     Some SavedAndGenerated \<and>
   the (fst (handleSubmit submit_env_ok (bob_checked_in_db, fresh_generator ana)) token_a) ''name'' =
     Some (FStr (js ''Ana'')) \<and>
   the (fst (handleSubmit submit_env_ok (bob_checked_in_db, fresh_generator ana)) token_a) ''status'' =
     Some (FStr (js ''invited''))"
proof -
  have v: "isValid (data (fresh_generator ana))"
    by (simp add: fresh_generator_def isValid_ana)
  have b: "submit_body submit_env_ok ana bob_checked_in_db =
      (bob_checked_in_db(token_a \<mapsto> rsvp_record token_a ana 5),
       Inr (js ''data:image/png;base64,'', token_a))"
    using submit_body_stored [where env = submit_env_ok and tok = token_a]
    by (simp add: submit_env_ok_def token_of_nat render_ok_def)
  have d: "data (fresh_generator ana) = ana"
    by (simp add: fresh_generator_def)
  have l: "the (bob_checked_in_db token_a) ''name'' = Some (FStr (js ''Bob''))"
    "the (bob_checked_in_db token_a) ''status'' = Some (FStr (js ''checked_in''))"
    by (simp_all add: bob_checked_in_db_def bob_checked_in)
  show ?thesis
    using l by (simp add: handleSubmit_valid [OF v] d b ana_record)
qed

text \<open>
  C10. When the form is valid, the store accepts the write and the rendering of the code
  then fails, \<open>handleSubmit\<close> reports the failure, shows no code and no token, and the
  store keeps the new record: the write is not undone.
\<close>

theorem registration_not_atomic:
  assumes "isValid (data g)" "store_up env"
    and "makeToken (Some 16) (entropy env) = Inr tok"
    and "toDataURL env (rsvp_payload tok (data g)) = Inl e"
  shows "message (snd (handleSubmit env (db, g))) = Some FailedToGenerate \<and>
         fst (handleSubmit env (db, g)) tok = Some (rsvp_record tok (data g) (server_time env)) \<and>
         fst (handleSubmit env (db, g)) = db(tok \<mapsto> rsvp_record tok (data g) (server_time env)) \<and>
         qrUrl (snd (handleSubmit env (db, g))) = qrUrl g \<and>
         lastToken (snd (handleSubmit env (db, g))) = lastToken g \<and>
         \<not> isGenerating (snd (handleSubmit env (db, g)))"
  using assms(4)
  by (simp add: handleSubmit_valid [OF assms(1)] submit_body_stored [OF assms(2) assms(3)])

text \<open>
  Ana registers into an empty store with a renderer that fails.
\<close>

theorem registration_not_atomic_witness:
  "isValid (data (fresh_generator ana)) \<and> store_up submit_env_no_qr \<and>
   makeToken (Some 16) (entropy submit_env_no_qr) = Inr token_a \<and>
   toDataURL submit_env_no_qr (rsvp_payload token_a ana) = Inl QRCodeError \<and>
   Map.empty token_a = (None :: document option) \<and>
   message (snd (handleSubmit submit_env_no_qr (Map.empty, fresh_generator ana))) =
     Some FailedToGenerate \<and>
   fst (handleSubmit submit_env_no_qr (Map.empty, fresh_generator ana)) token_a =
     Some (rsvp_record token_a ana 5)"
proof -
  have v: "isValid (data (fresh_generator ana))"
    by (simp add: fresh_generator_def isValid_ana)
  have d: "data (fresh_generator ana) = ana"
    by (simp add: fresh_generator_def)
  have u: "store_up submit_env_no_qr" "server_time submit_env_no_qr = 5"
    by (simp_all add: submit_env_no_qr_def)
  have t: "makeToken (Some 16) (entropy submit_env_no_qr) = Inr token_a"
    by (simp add: submit_env_no_qr_def token_of_nat)
  have q: "toDataURL submit_env_no_qr (rsvp_payload token_a (data (fresh_generator ana))) = Inl QRCodeError"
    by (simp add: submit_env_no_qr_def render_fails_def)
  from registration_not_atomic [OF v u(1) t q, of Map.empty] v u t q d
  show ?thesis by simp
qed

section \<open>The fuel of the parser\<close>

lemma length_skip_ws: "length (skip_ws s) \<le> length s"
  by (simp add: skip_ws_def length_dropWhile_le)

lemma parse_chars_shorter: "parse_chars s = Some (str, r) \<Longrightarrow> length r < length s"
proof (induction "length s" arbitrary: s str r rule: less_induct)
  case less
  show ?case
  proof (cases s)
    case Nil
    with less.prems show ?thesis by simp
  next
    case (Cons c cs)
    show ?thesis
    proof (cases "c = 0x22")
      case True
      with less.prems Cons show ?thesis by simp
    next
      case nq: False
      show ?thesis
      proof (cases "c = 0x5C")
        case True
        from less.prems Cons True nq obtain e r0 where cs: "cs = e # r0"
          by (cases cs) auto
        show ?thesis
        proof (cases "e = 0x75")
          case True
          from less.prems Cons \<open>c = 0x5C\<close> nq cs True
          obtain h3 h2 h1 h0 r' str' where r0: "r0 = h3 # h2 # h1 # h0 # r'"
            and p: "parse_chars r' = Some (str', r)"
            by (auto split: list.splits option.splits)
          from less.hyps [OF _ p] Cons cs r0 show ?thesis by simp
        next
          case False
          from less.prems Cons \<open>c = 0x5C\<close> nq cs False
          obtain str' where p: "parse_chars r0 = Some (str', r)"
            by (auto split: option.splits)
          from less.hyps [OF _ p] Cons cs show ?thesis by simp
        qed
      next
        case False
        from less.prems Cons False nq
        obtain str' where p: "parse_chars cs = Some (str', r)"
          by (auto split: if_splits)
        from less.hyps [OF _ p] Cons show ?thesis by simp
      qed
    qed
  qed
qed

lemma parse_number_shorter: "parse_number s = Some (q, r) \<Longrightarrow> length r < length s"
proof -
  have ip: "length r1 < length s0" if "parse_int_part s0 = Some (ip, r1)" for s0 ip r1
    using that
    by (auto simp: parse_int_part_def length_dropWhile_le less_Suc_eq_le split: list.splits if_splits)
  have fp: "length r2 \<le> length r1" if "parse_frac_part r1 = Some (fp, r2)" for r1 fp r2
    using that
    by (auto simp: parse_frac_part_def length_dropWhile_le le_SucI split: list.splits if_splits)
  have ed: "length r3 \<le> length r2" if "parse_exp_digits b r2 = Some (e, r3)" for b r2 e r3
    using that
    by (auto simp: parse_exp_digits_def length_dropWhile_le split: if_splits)
  have ep: "length r3 \<le> length r2" if "parse_exp_part r2 = Some (e, r3)" for r2 e r3
    using that ed
    by (fastforce simp: parse_exp_part_def le_SucI split: list.splits if_splits)
  have un: "length r < length s0" if "parse_unsigned s0 = Some (q, r)" for s0 q r
    using that ip fp ep
    by (fastforce simp: parse_unsigned_def split: option.splits prod.splits)
  assume "parse_number s = Some (q, r)"
  then show ?thesis
    using un by (fastforce simp: parse_number_def split: list.splits if_splits)
qed

lemma parse_value_cases:
  assumes "parse_value (Suc m) s = Some (v, r)"
  obtains
    (atom) "length r < length s" "\<And>n. parse_value (Suc n) s = Some (v, r)"
  | (arr) c cs vs r' where "skip_ws s = c # cs" "parse_elements m cs = Some (vs, r')"
      "r = skip_ws r'"
      "\<And>n. parse_elements n cs = Some (vs, r') \<Longrightarrow> parse_value (Suc n) s = Some (v, r)"
  | (obj) c cs ms r' where "skip_ws s = c # cs" "parse_members m cs = Some (ms, r')"
      "r = skip_ws r'"
      "\<And>n. parse_members n cs = Some (ms, r') \<Longrightarrow> parse_value (Suc n) s = Some (v, r)"
proof -
  from assms obtain c cs where t: "skip_ws s = c # cs"
    by (cases "skip_ws s") auto
  have ls: "length cs < length s"
    using length_skip_ws [of s] t by simp
  show thesis
  proof (cases "c = 0x22")
    case True
    from assms t True obtain str r0 where p: "parse_chars cs = Some (str, r0)"
      and v: "v = JStr str" "r = skip_ws r0"
      by auto
    have "length r < length s"
      using parse_chars_shorter [OF p] length_skip_ws [of r0] ls v by simp
    moreover have "parse_value (Suc n) s = Some (v, r)" for n
      using t True p v by simp
    ultimately show thesis by (rule atom)
  next
    case nq: False
    show thesis
    proof (cases "c = 0x5B")
      case True
      from assms t True nq obtain d ds where u: "skip_ws cs = d # ds"
        by (cases "skip_ws cs") auto
      show thesis
      proof (cases "d = 0x5D")
        case True
        have v: "v = JArr []" "r = skip_ws ds"
          using assms t \<open>c = 0x5B\<close> u True by simp_all
        have "length r < length s"
          using length_skip_ws [of ds] length_skip_ws [of cs] u ls v by simp
        moreover have "parse_value (Suc n) s = Some (v, r)" for n
          using t \<open>c = 0x5B\<close> u True v by simp
        ultimately show thesis by (rule atom)
      next
        case False
        from assms t \<open>c = 0x5B\<close> u False obtain vs r' where
          p: "parse_elements m cs = Some (vs, r')" and v: "v = JArr vs" "r = skip_ws r'"
          by auto
        have "parse_value (Suc n) s = Some (v, r)" if "parse_elements n cs = Some (vs, r')" for n
          using t \<open>c = 0x5B\<close> u False v that by simp
        with t p v(2) show thesis by (rule arr)
      qed
    next
      case na: False
      show thesis
      proof (cases "c = 0x7B")
        case True
        from assms t True nq na obtain d ds where u: "skip_ws cs = d # ds"
          by (cases "skip_ws cs") auto
        show thesis
        proof (cases "d = 0x7D")
          case True
          have v: "v = JObj []" "r = skip_ws ds"
            using assms t \<open>c = 0x7B\<close> u True by simp_all
          have "length r < length s"
            using length_skip_ws [of ds] length_skip_ws [of cs] u ls v by simp
          moreover have "parse_value (Suc n) s = Some (v, r)" for n
            using t \<open>c = 0x7B\<close> u True v by simp
          ultimately show thesis by (rule atom)
        next
          case False
          from assms t \<open>c = 0x7B\<close> u False obtain ms r' where
            p: "parse_members m cs = Some (ms, r')" and v: "v = JObj ms" "r = skip_ws r'"
            by auto
          have "parse_value (Suc n) s = Some (v, r)" if "parse_members n cs = Some (ms, r')" for n
            using t \<open>c = 0x7B\<close> u False v that by simp
          with t p v(2) show thesis by (rule obj)
        qed
      next
        case no: False
        define lit where "lit = (if take 4 (c # cs) = js ''true'' then Some (JBool True, skip_ws (drop 3 cs))
          else if take 5 (c # cs) = js ''false'' then Some (JBool False, skip_ws (drop 4 cs))
          else if take 4 (c # cs) = js ''null'' then Some (JNull, skip_ws (drop 3 cs))
          else map_option (\<lambda>(q, r). (JNum q, skip_ws r)) (parse_number (c # cs)))"
        have e: "parse_value (Suc n) s = lit" for n
          using t nq na no by (simp add: lit_def)
        have l: "lit = Some (v, r)"
          using assms e by simp
        have "length r \<le> length cs"
          using l length_skip_ws [of "drop 3 cs"] length_skip_ws [of "drop 4 cs"]
          by (auto simp: lit_def split: if_splits
              dest!: parse_number_shorter intro: order_trans [OF length_skip_ws])
        then have "length r < length s"
          using ls by simp
        moreover have "parse_value (Suc n) s = Some (v, r)" for n
          using e l by simp
        ultimately show thesis by (rule atom)
      qed
    qed
  qed
qed

lemma parse_elements_cases:
  assumes "parse_elements (Suc m) s = Some (vs, r)"
  obtains
    (last) v where "parse_value m s = Some (v, 0x5D # r)"
      "\<And>n. parse_value n s = Some (v, 0x5D # r) \<Longrightarrow> parse_elements (Suc n) s = Some (vs, r)"
  | (more) v cs vs' where "parse_value m s = Some (v, 0x2C # cs)"
      "parse_elements m cs = Some (vs', r)"
      "\<And>n. parse_value n s = Some (v, 0x2C # cs) \<Longrightarrow> parse_elements n cs = Some (vs', r) \<Longrightarrow>
         parse_elements (Suc n) s = Some (vs, r)"
proof -
  from assms obtain v c cs where p: "parse_value m s = Some (v, c # cs)"
    by (auto split: option.splits list.splits)
  show thesis
  proof (cases "c = 0x5D")
    case True
    have e: "vs = [v]" "r = cs"
      using assms p True by simp_all
    have "parse_elements (Suc n) s = Some (vs, r)" if "parse_value n s = Some (v, 0x5D # r)" for n
      using that e by simp
    with p True e show thesis by (auto intro: last)
  next
    case False
    from assms p False have c: "c = 0x2C"
      by (auto split: if_splits)
    from assms p c obtain vs' where q: "parse_elements m cs = Some (vs', r)" and e: "vs = v # vs'"
      by auto
    have "parse_elements (Suc n) s = Some (vs, r)"
      if "parse_value n s = Some (v, 0x2C # cs)" "parse_elements n cs = Some (vs', r)" for n
      using that e by simp
    with p c q show thesis by (auto intro: more)
  qed
qed

lemma parse_members_cases:
  assumes "parse_members (Suc m) s = Some (ms, r)"
  obtains
    (last) r1 v where "length r1 < length s" "parse_value m r1 = Some (v, 0x7D # r)"
      "\<And>n. parse_value n r1 = Some (v, 0x7D # r) \<Longrightarrow> parse_members (Suc n) s = Some (ms, r)"
  | (more) r1 v cs ms' where "length r1 < length s" "parse_value m r1 = Some (v, 0x2C # cs)"
      "parse_members m cs = Some (ms', r)"
      "\<And>n. parse_value n r1 = Some (v, 0x2C # cs) \<Longrightarrow> parse_members n cs = Some (ms', r) \<Longrightarrow>
         parse_members (Suc n) s = Some (ms, r)"
proof -
  from assms obtain q qs where t: "skip_ws s = q # qs"
    by (cases "skip_ws s") auto
  from assms t have q: "q = 0x22"
    by (auto split: if_splits)
  from assms t q obtain k r0 where k: "parse_chars qs = Some (k, r0)"
    by (auto split: option.splits)
  from assms t q k obtain col r1 where u: "skip_ws r0 = col # r1"
    by (cases "skip_ws r0") auto
  from assms t q k u have col: "col = 0x3A"
    by (auto split: if_splits)
  from assms t q k u col obtain v c cs where p: "parse_value m r1 = Some (v, c # cs)"
    by (auto split: option.splits list.splits)
  have l: "length r1 < length s"
    using length_skip_ws [of s] length_skip_ws [of r0] parse_chars_shorter [OF k] t u by simp
  show thesis
  proof (cases "c = 0x7D")
    case True
    have e: "ms = [(k, v)]" "r = cs"
      using assms t q k u col p True by simp_all
    have "parse_members (Suc n) s = Some (ms, r)" if "parse_value n r1 = Some (v, 0x7D # r)" for n
      using that e t q k u col by simp
    with l p True e show thesis by (auto intro: last)
  next
    case False
    from assms t q k u col p False have c: "c = 0x2C"
      by (auto split: if_splits)
    from assms t q k u col p c obtain ms' where
      m: "parse_members m cs = Some (ms', r)" and e: "ms = (k, v) # ms'"
      by auto
    have "parse_members (Suc n) s = Some (ms, r)"
      if "parse_value n r1 = Some (v, 0x2C # cs)" "parse_members n cs = Some (ms', r)" for n
      using that e t q k u col by simp
    with l p c m show thesis by (auto intro: more)
  qed
qed

lemma fuel_okD:
  "fuel_ok f m \<Longrightarrow> f m s = Some (x, r) \<Longrightarrow> length r < length s"
  "fuel_ok f m \<Longrightarrow> f m s = Some (x, r) \<Longrightarrow> 2 * (length s - length r) \<le> n \<Longrightarrow> f n s = Some (x, r)"
  unfolding fuel_ok_def by blast+

lemma fuel_okI:
  assumes "\<And>s x r. f m s = Some (x, r) \<Longrightarrow> length r < length s"
    and "\<And>s x r n. f m s = Some (x, r) \<Longrightarrow> 2 * (length s - length r) \<le> n \<Longrightarrow> f n s = Some (x, r)"
  shows "fuel_ok f m"
  using assms unfolding fuel_ok_def by blast

lemma pred_fuel:
  fixes a b c d n :: nat
  assumes "2 * (a - b) \<le> n" "b < a" "c < a" "b \<le> d"
  shows "\<exists>n'. n = Suc n' \<and> 2 * (c - d) \<le> n'"
proof -
  from assms(1,2) have "0 < n" by simp
  then obtain n' where n: "n = Suc n'" by (cases n) auto
  from assms have "2 * (c - d) < 2 * (a - b)" by simp
  with assms(1) n have "2 * (c - d) \<le> n'" by simp
  with n show ?thesis by blast
qed

lemma step_value:
  assumes E: "fuel_ok parse_elements m" and M: "fuel_ok parse_members m"
  shows "fuel_ok parse_value (Suc m)"
proof (rule fuel_okI)
  fix s x r assume a: "parse_value (Suc m) s = Some (x, r)"
  from a show "length r < length s"
  proof (cases rule: parse_value_cases)
    case atom
    show ?thesis by (rule atom(1))
  next
    case (arr c cs vs r')
    have "length cs < length s"
      using length_skip_ws [of s] arr(1) by simp
    moreover note fuel_okD(1) [OF E arr(2)]
    moreover have "length r \<le> length r'"
      using length_skip_ws [of r'] arr(3) by simp
    ultimately show ?thesis by simp
  next
    case (obj c cs ms r')
    have "length cs < length s"
      using length_skip_ws [of s] obj(1) by simp
    moreover note fuel_okD(1) [OF M obj(2)]
    moreover have "length r \<le> length r'"
      using length_skip_ws [of r'] obj(3) by simp
    ultimately show ?thesis by simp
  qed
next
  fix s x r n assume a: "parse_value (Suc m) s = Some (x, r)"
    and n: "2 * (length s - length r) \<le> n"
  from a show "parse_value n s = Some (x, r)"
  proof (cases rule: parse_value_cases)
    case atom
    from n atom(1) obtain n' where "n = Suc n'"
      by (cases n) simp_all
    then show ?thesis
      by (simp only: atom(2))
  next
    case (arr c cs vs r')
    have l: "length cs < length s"
      using length_skip_ws [of s] arr(1) by simp
    note l' = fuel_okD(1) [OF E arr(2)]
    have lr: "length r \<le> length r'"
      using length_skip_ws [of r'] arr(3) by simp
    have "length r < length s" using l l' lr by simp
    from pred_fuel [OF n this l lr] obtain n' where
      n': "n = Suc n'" "2 * (length cs - length r') \<le> n'" by blast
    show ?thesis
      unfolding n'(1) by (rule arr(4) [OF fuel_okD(2) [OF E arr(2) n'(2)]])
  next
    case (obj c cs ms r')
    have l: "length cs < length s"
      using length_skip_ws [of s] obj(1) by simp
    note l' = fuel_okD(1) [OF M obj(2)]
    have lr: "length r \<le> length r'"
      using length_skip_ws [of r'] obj(3) by simp
    have "length r < length s" using l l' lr by simp
    from pred_fuel [OF n this l lr] obtain n' where
      n': "n = Suc n'" "2 * (length cs - length r') \<le> n'" by blast
    show ?thesis
      unfolding n'(1) by (rule obj(4) [OF fuel_okD(2) [OF M obj(2) n'(2)]])
  qed
qed

lemma fuel_pred:
  fixes a b n :: nat
  assumes "2 * (a - b) \<le> n" "b < a"
  obtains n' where "n = Suc n'" "\<And>k. k < a - b \<Longrightarrow> 2 * k \<le> n'"
proof -
  from assms have "0 < n" by simp
  then obtain n' where n: "n = Suc n'" by (cases n) auto
  have "2 * k \<le> n'" if "k < a - b" for k
    using that assms(1) n by simp
  with n show thesis by (rule that)
qed

lemma step_elements:
  assumes V: "fuel_ok parse_value m" and E: "fuel_ok parse_elements m"
  shows "fuel_ok parse_elements (Suc m)"
proof (rule fuel_okI)
  fix s x r assume a: "parse_elements (Suc m) s = Some (x, r)"
  from a show "length r < length s"
  proof (cases rule: parse_elements_cases)
    case (last v)
    from fuel_okD(1) [OF V last(1)] show ?thesis by simp
  next
    case (more v cs vs')
    from fuel_okD(1) [OF V more(1)] fuel_okD(1) [OF E more(2)] show ?thesis by simp
  qed
next
  fix s x r n assume a: "parse_elements (Suc m) s = Some (x, r)"
    and n: "2 * (length s - length r) \<le> n"
  from a show "parse_elements n s = Some (x, r)"
  proof (cases rule: parse_elements_cases)
    case (last v)
    have l: "length (0x5D # r) < length s"
      by (rule fuel_okD(1) [OF V last(1)])
    then have lr: "length r < length s" by simp
    from fuel_pred [OF n lr] obtain n' where
      n': "n = Suc n'" "\<And>k. k < length s - length r \<Longrightarrow> 2 * k \<le> n'" by blast
    have "2 * (length s - length (0x5D # r)) \<le> n'"
      using l by (intro n'(2)) simp
    from last(2) [OF fuel_okD(2) [OF V last(1) this]] show ?thesis
      unfolding n'(1) .
  next
    case (more v cs vs')
    have l: "length (0x2C # cs) < length s"
      by (rule fuel_okD(1) [OF V more(1)])
    have l': "length r < length cs"
      by (rule fuel_okD(1) [OF E more(2)])
    from l l' have lr: "length r < length s" by simp
    from fuel_pred [OF n lr] obtain n' where
      n': "n = Suc n'" "\<And>k. k < length s - length r \<Longrightarrow> 2 * k \<le> n'" by blast
    have b1: "2 * (length s - length (0x2C # cs)) \<le> n'"
      using l l' by (intro n'(2)) simp
    have b2: "2 * (length cs - length r) \<le> n'"
      using l l' by (intro n'(2)) simp
    from more(3) [OF fuel_okD(2) [OF V more(1) b1] fuel_okD(2) [OF E more(2) b2]] show ?thesis
      unfolding n'(1) .
  qed
qed

lemma step_members:
  assumes V: "fuel_ok parse_value m" and M: "fuel_ok parse_members m"
  shows "fuel_ok parse_members (Suc m)"
proof (rule fuel_okI)
  fix s x r assume a: "parse_members (Suc m) s = Some (x, r)"
  from a show "length r < length s"
  proof (cases rule: parse_members_cases)
    case (last r1 v)
    from fuel_okD(1) [OF V last(2)] last(1) show ?thesis by simp
  next
    case (more r1 v cs ms')
    from fuel_okD(1) [OF V more(2)] fuel_okD(1) [OF M more(3)] more(1) show ?thesis by simp
  qed
next
  fix s x r n assume a: "parse_members (Suc m) s = Some (x, r)"
    and n: "2 * (length s - length r) \<le> n"
  from a show "parse_members n s = Some (x, r)"
  proof (cases rule: parse_members_cases)
    case (last r1 v)
    have l: "length (0x7D # r) < length r1"
      by (rule fuel_okD(1) [OF V last(2)])
    with last(1) have lr: "length r < length s" by simp
    from fuel_pred [OF n lr] obtain n' where
      n': "n = Suc n'" "\<And>k. k < length s - length r \<Longrightarrow> 2 * k \<le> n'" by blast
    have "2 * (length r1 - length (0x7D # r)) \<le> n'"
      using l last(1) by (intro n'(2)) simp
    from last(3) [OF fuel_okD(2) [OF V last(2) this]] show ?thesis
      unfolding n'(1) .
  next
    case (more r1 v cs ms')
    have l: "length (0x2C # cs) < length r1"
      by (rule fuel_okD(1) [OF V more(2)])
    have l': "length r < length cs"
      by (rule fuel_okD(1) [OF M more(3)])
    from l l' more(1) have lr: "length r < length s" by simp
    from fuel_pred [OF n lr] obtain n' where
      n': "n = Suc n'" "\<And>k. k < length s - length r \<Longrightarrow> 2 * k \<le> n'" by blast
    have b1: "2 * (length r1 - length (0x2C # cs)) \<le> n'"
      using l l' more(1) by (intro n'(2)) simp
    have b2: "2 * (length cs - length r) \<le> n'"
      using l l' more(1) by (intro n'(2)) simp
    from more(4) [OF fuel_okD(2) [OF V more(2) b1] fuel_okD(2) [OF M more(3) b2]] show ?thesis
      unfolding n'(1) .
  qed
qed

lemma fuel_ok_all:
  "fuel_ok parse_value m \<and> fuel_ok parse_elements m \<and> fuel_ok parse_members m"
proof (induction m)
  case 0
  show ?case by (simp add: fuel_ok_def)
next
  case (Suc m)
  then show ?case
    by (simp add: step_value step_elements step_members)
qed

lemma parse_value_fuel:
  assumes "parse_value m s = Some (v, r)"
  shows "parse_value (2 * length s + 2) s = Some (v, r)"
proof -
  have "fuel_ok parse_value m" by (simp add: fuel_ok_all)
  from fuel_okD(2) [OF this assms, of "2 * length s + 2"] show ?thesis by simp
qed

text \<open>
  \<open>JSON_parse\<close> succeeds exactly when some amount of fuel lets the parser read the whole
  text: the bound it uses never cuts a parse short.
\<close>

lemma JSON_parse_fuel:
  "JSON_parse s = Inr v \<longleftrightarrow> (\<exists>m. parse_value m s = Some (v, []))"
proof
  assume "JSON_parse s = Inr v"
  then have "parse_value (2 * length s + 2) s = Some (v, [])"
    by (auto simp: JSON_parse_def split: option.splits if_splits)
  then show "\<exists>m. parse_value m s = Some (v, [])" ..
next
  assume "\<exists>m. parse_value m s = Some (v, [])"
  then obtain m where "parse_value m s = Some (v, [])" ..
  from parse_value_fuel [OF this] show "JSON_parse s = Inr v"
    by (simp add: JSON_parse_def)
qed

section \<open>JSON round trip\<close>

lemma nibble_lt: "(x AND 0xF) < (16 :: 16 word)"
  by (rule le_less_trans [OF word_and_le1]) simp

lemma top_nibble_lt: "drop_bit 12 (c :: 16 word) < 16"
proof -
  have "unat (drop_bit 12 c) = drop_bit 12 (unat c)"
    by (rule unat_drop_bit_eq)
  also have "\<dots> = unat c div 2 ^ 12"
    by (rule drop_bit_eq_div)
  finally have e: "unat (drop_bit 12 c) = unat c div 2 ^ 12" .
  have "unat c < 2 ^ 16"
    using unsigned_less [of c, where 'a = nat] by simp
  then have "unat c div 2 ^ 12 < 16"
    by (simp add: less_mult_imp_div_less)
  with e have "unat (drop_bit 12 c) < unat (16 :: 16 word)"
    by simp
  then show ?thesis
    by (simp only: word_less_nat_alt)
qed

lemma recombine:
  "push_bit 12 (drop_bit 12 c) OR push_bit 8 (drop_bit 8 c AND 0xF) OR
   push_bit 4 (drop_bit 4 c AND 0xF) OR (c AND 0xF) = (c :: 16 word)"
proof (rule bit_word_eqI)
  fix n assume n: "n < LENGTH(16)"
  have m: "(15 :: 16 word) = mask 4" by (simp add: mask_eq_exp_minus_1)
  have "n < 4 \<or> (4 \<le> n \<and> n < 8) \<or> (8 \<le> n \<and> n < 12) \<or> (12 \<le> n \<and> n < 16)"
    using n by auto
  then show "bit (push_bit 12 (drop_bit 12 c) OR push_bit 8 (drop_bit 8 c AND 0xF) OR
   push_bit 4 (drop_bit 4 c AND 0xF) OR (c AND 0xF)) n = bit c n"
    unfolding m
    by (auto simp: bit_simps)
qed

lemma unat_add_small:
  fixes n :: "16 word"
  assumes "unat n < 16"
  shows "unat (0x30 + n) = 48 + unat n" "unat (0x57 + n) = 87 + unat n"
proof -
  have "unat (0x30 :: 16 word) + unat n < 2 ^ LENGTH(16)"
    using assms by simp
  then have "unat (0x30 + n) = unat (0x30 :: 16 word) + unat n"
    by (simp only: unat_add_lem)
  then show "unat (0x30 + n) = 48 + unat n" by simp
  have "unat (0x57 :: 16 word) + unat n < 2 ^ LENGTH(16)"
    using assms by simp
  then have "unat (0x57 + n) = unat (0x57 :: 16 word) + unat n"
    by (simp only: unat_add_lem)
  then show "unat (0x57 + n) = 87 + unat n" by simp
qed

lemma hexval_hexdigit: "n < 16 \<Longrightarrow> hexval (hexdigit n) = Some n"
  for n :: "16 word"
proof -
  assume "n < 16"
  then have b: "unat n < 16" by (simp add: word_less_nat_alt)
  show ?thesis
  proof (cases "n < 10")
    case True
    then have "unat n < 10" by (simp add: word_less_nat_alt)
    then have "0x30 \<le> 0x30 + n \<and> 0x30 + n \<le> 0x39"
      by (simp add: word_le_nat_alt unat_add_small(1) [OF b])
    then show ?thesis
      using True by (simp add: hexval_def hexdigit_def)
  next
    case False
    then have "10 \<le> unat n" by (simp add: word_less_nat_alt)
    then have "\<not> (0x57 + n \<le> 0x39) \<and> \<not> (0x57 + n \<le> 0x46) \<and> 0x61 \<le> 0x57 + n \<and> 0x57 + n \<le> 0x66"
      using b by (simp add: word_le_nat_alt unat_add_small(2) [OF b])
    then show ?thesis
      using False by (simp add: hexval_def hexdigit_def)
  qed
qed

lemma parse_hex4_escape:
  "parse_hex4 (hexdigit (drop_bit 12 c)) (hexdigit (drop_bit 8 c AND 0xF))
     (hexdigit (drop_bit 4 c AND 0xF)) (hexdigit (c AND 0xF)) = Some c"
  unfolding parse_hex4_def
  by (simp only: hexval_hexdigit [OF top_nibble_lt] hexval_hexdigit [OF nibble_lt]
      prod.case option.case recombine)

lemma parse_chars_unicode_escape:
  "parse_chars (unicode_escape c @ r) =
     map_option (\<lambda>(str, rest). (c # str, rest)) (parse_chars r)"
proof -
  have "parse_chars (unicode_escape c @ r) =
     (case parse_hex4 (hexdigit (drop_bit 12 c)) (hexdigit (drop_bit 8 c AND 0xF))
         (hexdigit (drop_bit 4 c AND 0xF)) (hexdigit (c AND 0xF)) of
        None \<Rightarrow> None
      | Some u \<Rightarrow> map_option (\<lambda>(str, rest). (u # str, rest)) (parse_chars r))"
    unfolding unicode_escape_def by simp
  then show ?thesis
    by (simp only: parse_hex4_escape option.case)
qed

lemma trail_plain: "is_trail d \<Longrightarrow> d \<noteq> 0x22 \<and> d \<noteq> 0x5C \<and> \<not> d < 0x20"
  by (auto simp: is_trail_def word_le_nat_alt word_less_nat_alt)

lemma parse_chars_plain:
  "c \<noteq> 0x22 \<Longrightarrow> c \<noteq> 0x5C \<Longrightarrow> \<not> c < 0x20 \<Longrightarrow>
   parse_chars (c # r) = map_option (\<lambda>(str, rest). (c # str, rest)) (parse_chars r)"
  by simp

lemma parse_chars_short:
  "unescape e = Some u \<Longrightarrow> e \<noteq> 0x75 \<Longrightarrow>
   parse_chars (0x5C # e # r) = map_option (\<lambda>(str, rest). (u # str, rest)) (parse_chars r)"
  by simp

lemma quote_short:
  "short_escaped c \<Longrightarrow>
   \<exists>e. quote_chars (c # cs) = 0x5C # e # quote_chars cs \<and> unescape e = Some c \<and> e \<noteq> 0x75"
  unfolding short_escaped_def
  by (elim disjE) (simp_all add: unescape_def)

lemma quote_control:
  "\<not> short_escaped c \<Longrightarrow> c < 0x20 \<Longrightarrow>
   quote_chars (c # cs) = unicode_escape c @ quote_chars cs"
  unfolding short_escaped_def by simp

lemma quote_pair:
  "\<not> short_escaped c \<Longrightarrow> \<not> c < 0x20 \<Longrightarrow> is_lead c \<Longrightarrow> is_trail d \<Longrightarrow>
   quote_chars (c # d # ds) = c # d # quote_chars ds"
  unfolding short_escaped_def by simp

lemma quote_lone_lead_end:
  "\<not> short_escaped c \<Longrightarrow> \<not> c < 0x20 \<Longrightarrow> is_lead c \<Longrightarrow>
   quote_chars [c] = unicode_escape c @ quote_chars []"
  unfolding short_escaped_def by simp

lemma quote_lone_lead:
  "\<not> short_escaped c \<Longrightarrow> \<not> c < 0x20 \<Longrightarrow> is_lead c \<Longrightarrow> \<not> is_trail d \<Longrightarrow>
   quote_chars (c # d # ds) = unicode_escape c @ quote_chars (d # ds)"
  unfolding short_escaped_def by (simp del: quote_chars.simps add: quote_chars.simps(2) [of c])

lemma quote_lone_trail:
  "\<not> short_escaped c \<Longrightarrow> \<not> c < 0x20 \<Longrightarrow> \<not> is_lead c \<Longrightarrow> is_trail c \<Longrightarrow>
   quote_chars (c # cs) = unicode_escape c @ quote_chars cs"
  unfolding short_escaped_def by simp

lemma quote_plain:
  "\<not> short_escaped c \<Longrightarrow> \<not> c < 0x20 \<Longrightarrow> \<not> is_lead c \<Longrightarrow> \<not> is_trail c \<Longrightarrow>
   quote_chars (c # cs) = c # quote_chars cs"
  unfolding short_escaped_def by simp

lemma short_not_plain: "\<not> short_escaped c \<Longrightarrow> c \<noteq> 0x22 \<and> c \<noteq> 0x5C"
  by (simp add: short_escaped_def)

lemma parse_chars_quote: "parse_chars (quote_chars s @ 0x22 # rest) = Some (s, rest)"
proof (induction "length s" arbitrary: s rule: less_induct)
  case less
  show ?case
  proof (cases s)
    case Nil
    then show ?thesis by simp
  next
    case (Cons c cs)
    have ih: "parse_chars (quote_chars cs @ 0x22 # rest) = Some (cs, rest)"
      using less [of cs] Cons by simp
    show ?thesis
    proof (cases "short_escaped c")
      case True
      from quote_short [OF True, of cs] obtain e where
        e: "quote_chars (c # cs) = 0x5C # e # quote_chars cs" "unescape e = Some c" "e \<noteq> 0x75"
        by blast
      show ?thesis
        unfolding Cons e(1)
        by (simp only: append_Cons parse_chars_short [OF e(2) e(3)] ih) simp
    next
      case ns: False
      note np = short_not_plain [OF ns]
      show ?thesis
      proof (cases "c < 0x20")
        case True
        show ?thesis
          unfolding Cons quote_control [OF ns True]
          by (simp only: append_assoc parse_chars_unicode_escape ih) simp
      next
        case nc: False
        show ?thesis
        proof (cases "is_lead c")
          case True
          show ?thesis
          proof (cases cs)
            case Nil
            show ?thesis
              unfolding Cons Nil quote_lone_lead_end [OF ns nc True]
              by (simp only: append_assoc parse_chars_unicode_escape) simp
          next
            case (Cons d ds)
            show ?thesis
            proof (cases "is_trail d")
              case True
              have ih2: "parse_chars (quote_chars ds @ 0x22 # rest) = Some (ds, rest)"
                using less [of ds] \<open>s = c # cs\<close> Cons by simp
              note dp = trail_plain [OF True]
              show ?thesis
                unfolding \<open>s = c # cs\<close> Cons quote_pair [OF ns nc \<open>is_lead c\<close> True]
                using np nc dp ih2
                by simp
            next
              case False
              show ?thesis
                unfolding \<open>s = c # cs\<close> Cons quote_lone_lead [OF ns nc \<open>is_lead c\<close> False]
                using ih [unfolded Cons]
                by (simp only: append_assoc parse_chars_unicode_escape) simp
            qed
          qed
        next
          case nl: False
          show ?thesis
          proof (cases "is_trail c")
            case True
            show ?thesis
              unfolding Cons quote_lone_trail [OF ns nc nl True]
              by (simp only: append_assoc parse_chars_unicode_escape ih) simp
          next
            case False
            show ?thesis
              unfolding Cons quote_plain [OF ns nc nl False]
              using np nc ih
              by simp
          qed
        qed
      qed
    qed
  qed
qed

lemma skip_ws_simps:
  "skip_ws [] = []"
  "\<not> is_ws c \<Longrightarrow> skip_ws (c # r) = c # r"
  by (simp_all add: skip_ws_def)

lemma not_ws:
  "\<not> is_ws 0x22" "\<not> is_ws 0x3A" "\<not> is_ws 0x2C" "\<not> is_ws 0x7D" "\<not> is_ws 0x7B"
  "\<not> is_ws 0x74" "\<not> is_ws 0x66"
  by (simp_all add: is_ws_def)

lemma parse_value_string:
  "parse_value (Suc n) (JSON_quote v @ r) = Some (JStr v, skip_ws r)"
  by (simp add: JSON_quote_def skip_ws_simps not_ws parse_chars_quote)

lemma parse_value_true:
  "parse_value (Suc n) (js ''true'' @ r) = Some (JBool True, skip_ws r)"
  by (simp add: js_def skip_ws_simps not_ws)

lemma parse_value_false:
  "parse_value (Suc n) (js ''false'' @ r) = Some (JBool False, skip_ws r)"
  by (simp add: js_def skip_ws_simps not_ws)

lemma parse_member:
  assumes "\<not> is_ws c"
  shows "parse_members (Suc (Suc n)) (stringify_member m @ c # rest) =
     (if c = 0x7D then Some ([member_value m], rest)
      else if c = 0x2C then
        map_option (\<lambda>(ms, r'). (member_value m # ms, r')) (parse_members (Suc n) rest)
      else None)"
proof -
  obtain k v where m: "m = (k, v)" by (cases m)
  define val where "val = (case v of SV s \<Rightarrow> JSON_quote s | BV b \<Rightarrow> if b then js ''true'' else js ''false'')"
  have pv: "parse_value (Suc n) (val @ c # rest) = Some (snd (member_value m), c # rest)"
    unfolding val_def m member_value_def
    by (cases v)
       (simp_all add: parse_value_string parse_value_true parse_value_false skip_ws_simps assms
          del: parse_value.simps)
  have s: "stringify_member m @ c # rest =
      0x22 # quote_chars (js k) @ 0x22 # 0x3A # val @ c # rest"
    by (simp add: stringify_member_def JSON_quote_def m val_def)
  show ?thesis
    unfolding s
    by (simp add: skip_ws_simps not_ws parse_chars_quote pv m member_value_def
        del: parse_value.simps)
qed

lemma parse_members_fields:
  "fs \<noteq> [] \<Longrightarrow>
   parse_members (Suc (length fs) + n) (join_members (map stringify_member fs) @ 0x7D # rest) =
     Some (map member_value fs, rest)"
proof (induction fs rule: list_nonempty_induct)
  case (single m)
  show ?case
    using parse_member [of "0x7D" n m rest] by (simp add: not_ws del: parse_members.simps)
next
  case (cons m ms)
  obtain m' ms' where c: "ms = m' # ms'"
    using cons(1) by (cases ms) auto
  have j: "join_members (map stringify_member (m # ms)) @ 0x7D # rest =
     stringify_member m @ 0x2C # (join_members (map stringify_member ms) @ 0x7D # rest)"
    by (simp add: c)
  have f: "Suc (length (m # ms)) + n = Suc (Suc (length ms + n))"
    by simp
  show ?case
    unfolding j f
    using cons(2) parse_member [of "0x2C" "length ms + n" m]
    by (simp add: not_ws del: parse_members.simps)
qed

lemma length_join_members:
  "length fs \<le> length (join_members (map stringify_member fs))"
proof (induction fs rule: induct_list012)
  case 1
  show ?case by simp
next
  case (2 x)
  show ?case by (simp add: stringify_member_def JSON_quote_def)
next
  case (3 x y zs)
  then show ?case by simp
qed

lemma JSON_parse_stringify:
  "JSON_parse (JSON_stringify fs) = Inr (JObj (map member_value fs))"
proof (cases fs)
  case Nil
  have "parse_value (Suc n) [0x7B, 0x7D] = Some (JObj [], [])" for n
    by (simp add: skip_ws_simps not_ws)
  from this [of 5] show ?thesis
    by (simp add: Nil JSON_parse_def JSON_stringify_def del: parse_value.simps)
next
  case (Cons m ms)
  define body where "body = join_members (map stringify_member fs)"
  have ne: "fs \<noteq> []" using Cons by simp
  have t: "JSON_stringify fs = 0x7B # body @ [0x7D]"
    by (simp add: JSON_stringify_def body_def)
  have "length fs \<le> length body"
    unfolding body_def by (rule length_join_members)
  then have "\<exists>k. 2 * length (JSON_stringify fs) + 2 = Suc (Suc (length fs) + k)"
    unfolding t by (intro exI [of _ "2 * length body + 4 - length fs"]) simp
  then obtain k where k: "2 * length (JSON_stringify fs) + 2 = Suc (Suc (length fs) + k)"
    by blast
  obtain q b' where b: "body = 0x22 # b'"
    unfolding body_def Cons
    by (cases ms) (simp_all add: stringify_member_def JSON_quote_def)
  have pm: "parse_members (Suc (length fs) + k) (body @ [0x7D]) = Some (map member_value fs, [])"
    unfolding body_def by (rule parse_members_fields [OF ne])
  have "parse_value (Suc (Suc (length fs) + k)) (0x7B # body @ [0x7D]) =
          Some (JObj (map member_value fs), [])"
    using pm unfolding b
    by (simp add: skip_ws_simps not_ws del: parse_members.simps)
  then show ?thesis
    unfolding JSON_parse_def k by (simp add: t del: parse_value.simps)
qed

section \<open>Scanning\<close>

lemma get_prop_nonnull:
  "v \<noteq> JNull \<Longrightarrow> \<exists>p. get_prop v k = Inr p"
  by (cases v) (simp_all add: get_prop_def)

text \<open>
  C5 (amended). A decoded text that passes the gates is handed to the classifier, and
  every text that parses to something other than \<open>null\<close> gets exactly one of three
  treatments. (a) If it parses to a value whose \<open>t\<close> is the string \<open>rsvp\<close> and whose
  \<open>token\<close> is truthy (a non-empty string in particular, but also \<open>true\<close>, a non-zero
  number, an array or an object), the check-in is started with the parsed value and
  nothing is reported. (b) If it parses to a value whose \<open>t\<close> is anything else or missing,
  or whose \<open>token\<close> is missing or falsy, the status is "Invalid RSVP QR code" and \<open>onResult\<close>
  gets the raw text. (c) If it does not parse, the status is "Not an RSVP QR code" and
  \<open>onResult\<close> gets the raw text; \<open>hello world\<close> is such a text.
\<close>

theorem scan_classification:
  "(JSON_parse raw = Inr v \<and> get_prop v (js ''t'') = Inr (Some (JStr (js ''rsvp''))) \<and>
      get_prop v (js ''token'') = Inr tk \<and> truthy tk \<longrightarrow>
        scan_text raw sc = (sc, [CheckIn v])) \<and>
   (JSON_parse raw = Inr v \<and> get_prop v (js ''t'') = Inr (Some (JStr (js ''rsvp''))) \<and>
      get_prop v (js ''token'') = Inr (Some (JStr tok)) \<and> tok \<noteq> [] \<longrightarrow>
        scan_text raw sc = (sc, [CheckIn v])) \<and>
   (JSON_parse raw = Inr v \<and> get_prop v (js ''t'') = Inr (Some (JStr (js ''rsvp''))) \<and>
      get_prop v (js ''token'') = Inr tk \<and> \<not> truthy tk \<longrightarrow>
        scan_text raw sc = (sc\<lparr>status := InvalidRsvp\<rparr>, [OnResult raw])) \<and>
   (JSON_parse raw = Inr v \<and> get_prop v (js ''t'') = Inr t \<and> t \<noteq> Some (JStr (js ''rsvp'')) \<longrightarrow>
        scan_text raw sc = (sc\<lparr>status := InvalidRsvp\<rparr>, [OnResult raw])) \<and>
   (JSON_parse raw = Inl e \<longrightarrow>
        scan_text raw sc = (sc\<lparr>status := NotRsvp\<rparr>, [OnResult raw])) \<and>
   (v \<noteq> JNull \<longrightarrow> (\<exists>t tk. get_prop v (js ''t'') = Inr t \<and> get_prop v (js ''token'') = Inr tk)) \<and>
   JSON_parse (js ''hello world'') = Inl SyntaxError \<and>
   scan_text (js ''hello world'') sc = (sc\<lparr>status := NotRsvp\<rparr>, [OnResult (js ''hello world'')]) \<and>
   (nextAllowed sc \<le> now \<longrightarrow>
        on_decode cd False now (Some raw) sc = scan_text raw (sc\<lparr>nextAllowed := now + cd\<rparr>))"
proof -
  have a: "scan_text raw sc = (sc, [CheckIn v])"
    if "JSON_parse raw = Inr v" "get_prop v (js ''t'') = Inr (Some (JStr (js ''rsvp'')))"
      "get_prop v (js ''token'') = Inr tk" "truthy tk" for tk
    using that by (simp add: scan_text_def)
  have a': "scan_text raw sc = (sc, [CheckIn v])"
    if "JSON_parse raw = Inr v" "get_prop v (js ''t'') = Inr (Some (JStr (js ''rsvp'')))"
      "get_prop v (js ''token'') = Inr (Some (JStr tok))" "tok \<noteq> []"
    using that by (simp add: scan_text_def truthy_def)
  have b1: "scan_text raw sc = (sc\<lparr>status := InvalidRsvp\<rparr>, [OnResult raw])"
    if "JSON_parse raw = Inr v" "get_prop v (js ''t'') = Inr (Some (JStr (js ''rsvp'')))"
      "get_prop v (js ''token'') = Inr tk" "\<not> truthy tk"
    using that by (simp add: scan_text_def)
  have b2: "scan_text raw sc = (sc\<lparr>status := InvalidRsvp\<rparr>, [OnResult raw])"
    if "JSON_parse raw = Inr v" "get_prop v (js ''t'') = Inr t" "t \<noteq> Some (JStr (js ''rsvp''))"
    using that by (simp add: scan_text_def)
  have c: "scan_text raw sc = (sc\<lparr>status := NotRsvp\<rparr>, [OnResult raw])"
    if "JSON_parse raw = Inl e"
    using that by (simp add: scan_text_def)
  have t: "\<exists>t tk. get_prop v (js ''t'') = Inr t \<and> get_prop v (js ''token'') = Inr tk"
    if "v \<noteq> JNull"
    using get_prop_nonnull [OF that] by blast
  have h: "JSON_parse (js ''hello world'') = Inl SyntaxError"
    by code_simp
  have hs: "scan_text (js ''hello world'') sc =
      (sc\<lparr>status := NotRsvp\<rparr>, [OnResult (js ''hello world'')])"
    unfolding scan_text_def h by simp
  have g: "on_decode cd False now (Some raw) sc = scan_text raw (sc\<lparr>nextAllowed := now + cd\<rparr>)"
    if "nextAllowed sc \<le> now"
    using that by (simp add: on_decode_def)
  from a a' b1 b2 c t h hs g show ?thesis by blast
qed

lemma parse_token_true: \<open>JSON_parse token_true_text =
   Inr (JObj [(js ''t'', JStr (js ''rsvp'')), (js ''token'', JBool True)])\<close>
  unfolding token_true_text_def by code_simp

lemma parse_other_kind: \<open>JSON_parse menu_text =
   Inr (JObj [(js ''t'', JStr (js ''menu'')), (js ''token'', JStr (js ''abc''))])\<close>
  unfolding menu_text_def by code_simp

text \<open>
  One text of each kind.
\<close>

theorem scan_classification_witness:
  \<open>scan_text token_true_text initial_scanner =
     (initial_scanner,
      [CheckIn (JObj [(js ''t'', JStr (js ''rsvp'')), (js ''token'', JBool True)])]) \<and>
   scan_text menu_text initial_scanner =
     (initial_scanner\<lparr>status := InvalidRsvp\<rparr>, [OnResult menu_text]) \<and>
   scan_text (js ''hello world'') initial_scanner =
     (initial_scanner\<lparr>status := NotRsvp\<rparr>, [OnResult (js ''hello world'')])\<close>
proof -
  have p1: "get_prop (JObj [(js ''t'', JStr (js ''rsvp'')), (js ''token'', JBool True)]) (js ''t'') =
      Inr (Some (JStr (js ''rsvp'')))"
    "get_prop (JObj [(js ''t'', JStr (js ''rsvp'')), (js ''token'', JBool True)]) (js ''token'') =
      Inr (Some (JBool True))"
    "truthy (Some (JBool True))"
    by (simp_all add: get_prop_def truthy_def js_def)
  have p2: "get_prop (JObj [(js ''t'', JStr (js ''menu'')), (js ''token'', JStr (js ''abc''))]) (js ''t'') =
      Inr (Some (JStr (js ''menu'')))"
    "Some (JStr (js ''menu'')) \<noteq> Some (JStr (js ''rsvp''))"
    by (simp_all add: get_prop_def js_def)
  note w1 = scan_classification [where raw = token_true_text
      and v = "JObj [(js ''t'', JStr (js ''rsvp'')), (js ''token'', JBool True)]"
      and tk = "Some (JBool True)" and sc = initial_scanner]
  note w2 = scan_classification [where raw = menu_text
      and v = "JObj [(js ''t'', JStr (js ''menu'')), (js ''token'', JStr (js ''abc''))]"
      and t = "Some (JStr (js ''menu''))" and sc = initial_scanner]
  note w3 = scan_classification [where sc = initial_scanner]
  from w1 parse_token_true p1
  have r1: \<open>scan_text token_true_text initial_scanner =
     (initial_scanner,
      [CheckIn (JObj [(js ''t'', JStr (js ''rsvp'')), (js ''token'', JBool True)])])\<close>
    by blast
  from w2 parse_other_kind p2
  have r2: \<open>scan_text menu_text initial_scanner =
     (initial_scanner\<lparr>status := InvalidRsvp\<rparr>, [OnResult menu_text])\<close>
    by blast
  from w3
  have r3: "scan_text (js ''hello world'') initial_scanner =
     (initial_scanner\<lparr>status := NotRsvp\<rparr>, [OnResult (js ''hello world'')])"
    by blast
  from r1 r2 r3 show ?thesis by blast
qed

text \<open>
  C5 as stated fails for a payload of kind \<open>rsvp\<close> whose token is the boolean \<open>true\<close>:
  the token is not a non-empty string, yet the text is not reported as invalid and is not
  handed to \<open>onResult\<close>; the check-in is started.
\<close>

theorem scan_truthy_token_counterexample:
  \<open>scan_text token_true_text initial_scanner =
     (initial_scanner,
      [CheckIn (JObj [(js ''t'', JStr (js ''rsvp'')), (js ''token'', JBool True)])]) \<and>
   scan_text token_true_text initial_scanner \<noteq>
     (initial_scanner\<lparr>status := InvalidRsvp\<rparr>, [OnResult token_true_text])\<close>
proof -
  have \<open>scan_text token_true_text initial_scanner =
     (initial_scanner,
      [CheckIn (JObj [(js ''t'', JStr (js ''rsvp'')), (js ''token'', JBool True)])])\<close>
    unfolding scan_text_def parse_token_true
    by (simp add: get_prop_def truthy_def js_def)
  then show ?thesis by simp
qed

lemma makeToken_16_nonempty: "makeToken (Some 16) rnd = Inr tok \<Longrightarrow> tok \<noteq> []"
  by (auto simp: makeToken_def getRandomValues_def)

text \<open>
  C7. The payload that registration serialises for a record parses back to an object
  with the six members \<open>t\<close>, \<open>token\<close>, \<open>name\<close>, \<open>email\<close>, \<open>phone\<close> and \<open>coming\<close>, whose
  values are those of the stored record, character for character. When the token is not
  empty, as every generated token is, the scanner accepts the text and starts the
  check-in with that object.
\<close>

theorem payload_round_trip:
  "JSON_parse (rsvp_payload tok d) =
     Inr (JObj [(js ''t'', JStr (js ''rsvp'')), (js ''token'', JStr tok),
                (js ''name'', JStr (trim (name d))), (js ''email'', JStr (trim (email d))),
                (js ''phone'', JStr (trim (phone d))), (js ''coming'', JBool (confirmComing d))]) \<and>
   rsvp_record tok d created ''token'' = Some (FStr tok) \<and>
   rsvp_record tok d created ''name'' = Some (FStr (trim (name d))) \<and>
   rsvp_record tok d created ''email'' = Some (FStr (trim (email d))) \<and>
   rsvp_record tok d created ''phone'' = Some (FStr (trim (phone d))) \<and>
   rsvp_record tok d created ''coming'' = Some (FBool (confirmComing d)) \<and>
   (tok \<noteq> [] \<longrightarrow>
      scan_text (rsvp_payload tok d) sc =
        (sc, [CheckIn (JObj [(js ''t'', JStr (js ''rsvp'')), (js ''token'', JStr tok),
                (js ''name'', JStr (trim (name d))), (js ''email'', JStr (trim (email d))),
                (js ''phone'', JStr (trim (phone d))), (js ''coming'', JBool (confirmComing d))])])) \<and>
   (makeToken (Some 16) rnd = Inr tok \<longrightarrow> tok \<noteq> [])"
proof -
  have p: "JSON_parse (rsvp_payload tok d) =
     Inr (JObj [(js ''t'', JStr (js ''rsvp'')), (js ''token'', JStr tok),
                (js ''name'', JStr (trim (name d))), (js ''email'', JStr (trim (email d))),
                (js ''phone'', JStr (trim (phone d))), (js ''coming'', JBool (confirmComing d))])"
    by (simp add: rsvp_payload_def JSON_parse_stringify member_value_def)
  have r: "rsvp_record tok d created ''token'' = Some (FStr tok)"
    "rsvp_record tok d created ''name'' = Some (FStr (trim (name d)))"
    "rsvp_record tok d created ''email'' = Some (FStr (trim (email d)))"
    "rsvp_record tok d created ''phone'' = Some (FStr (trim (phone d)))"
    "rsvp_record tok d created ''coming'' = Some (FBool (confirmComing d))"
    by (simp_all add: rsvp_record_def)
  have s: "scan_text (rsvp_payload tok d) sc =
        (sc, [CheckIn (JObj [(js ''t'', JStr (js ''rsvp'')), (js ''token'', JStr tok),
                (js ''name'', JStr (trim (name d))), (js ''email'', JStr (trim (email d))),
                (js ''phone'', JStr (trim (phone d))), (js ''coming'', JBool (confirmComing d))])])"
    if "tok \<noteq> []"
    unfolding scan_text_def p
    using that by (simp add: get_prop_def truthy_def js_def)
  from p r s makeToken_16_nonempty show ?thesis by blast
qed

lemma ana_payload: "rsvp_payload token_a ana = ana_payload_text"
  unfolding ana_payload_text_def by code_simp

text \<open>
  Ana's payload is the text with her token and her fields; the scanner starts the
  check-in with the object of the scenario.
\<close>

theorem payload_round_trip_witness:
  "token_a \<noteq> [] \<and>
   JSON_parse ana_payload_text = Inr qr_a \<and>
   scan_text ana_payload_text initial_scanner = (initial_scanner, [CheckIn qr_a])"
proof -
  have t: "trim (name ana) = js ''Ana''" "trim (email ana) = js ''a@x.com''"
    "trim (phone ana) = js ''+1 5551234567''" "confirmComing ana"
    by (simp_all add: ana_def trim_def is_space_def js_def)
  from payload_round_trip [of token_a ana 5 initial_scanner of_nat] token_a_nonempty t(4)
  show ?thesis
    unfolding ana_payload t qr_a_def by simp
qed

section \<open>The busy flag\<close>

lemma parse_ana_payload: "JSON_parse ana_payload_text = Inr qr_a"
  unfolding ana_payload_text_def qr_a_def token_a_def by code_simp

lemma qr_a_kind: "get_prop qr_a (js ''t'') = Inr (Some (JStr (js ''rsvp'')))"
  by (simp add: get_prop_def qr_a_def js_def)

lemma on_decode_dispatch:
  assumes "JSON_parse raw = Inr v" "get_prop v (js ''t'') = Inr (Some (JStr (js ''rsvp'')))"
    and "get_prop v (js ''token'') = Inr tk" "truthy tk" "nextAllowed sc \<le> now"
  shows "on_decode cd False now (Some raw) sc = (sc\<lparr>nextAllowed := now + cd\<rparr>, [CheckIn v])"
  using assms by (simp add: on_decode_def scan_text_def)

text \<open>
  C6, the code at the failing input. The decode callback is created inside \<open>start\<close>, and
  \<open>start\<close> runs only from the Start button, which is disabled while a check-in is
  processing; so the \<open>isProcessing\<close> that the callback closes over is false, and stays
  false for the callback however the state changes afterwards. Ana's code is decoded at
  time 1000 by a started scanner: the gate accepts the hit, next-allowed becomes 1200 and
  a check-in is dispatched. That check-in sets the busy flag and waits for the store. At
  time 1300, with the busy flag set and the first check-in still in flight, the code is
  decoded again: the gate accepts the hit, next-allowed becomes 1500, and the dispatch is
  not withheld: a second check-in is started while the first is in flight.
\<close>

theorem second_checkin_while_busy:
  "on_decode 200 False 1000 (Some ana_payload_text) started_scanner =
     (started_scanner\<lparr>nextAllowed := 1200\<rparr>, [CheckIn qr_a]) \<and>
   in_flight_scanner =
     (fst (on_decode 200 False 1000 (Some ana_payload_text) started_scanner))
       \<lparr>isProcessing := True, status := Processing\<rparr> \<and>
   isProcessing in_flight_scanner \<and>
   on_decode 200 False 1300 (Some ana_payload_text) in_flight_scanner =
     (in_flight_scanner\<lparr>nextAllowed := 1500\<rparr>, [CheckIn qr_a])"
proof -
  have t: "truthy (Some (JStr token_a))"
    by (simp add: truthy_def token_a_nonempty)
  have a: "on_decode 200 False 1000 (Some ana_payload_text) started_scanner =
     (started_scanner\<lparr>nextAllowed := 1000 + 200\<rparr>, [CheckIn qr_a])"
    by (rule on_decode_dispatch [OF parse_ana_payload qr_a_kind qr_a_token t])
       (simp add: started_scanner_def initial_scanner_def)
  have b: "on_decode 200 False 1300 (Some ana_payload_text) in_flight_scanner =
     (in_flight_scanner\<lparr>nextAllowed := 1300 + 200\<rparr>, [CheckIn qr_a])"
    by (rule on_decode_dispatch [OF parse_ana_payload qr_a_kind qr_a_token t])
       (simp add: in_flight_scanner_def)
  have c: "isProcessing in_flight_scanner"
    by (simp add: in_flight_scanner_def)
  have d: "in_flight_scanner =
     (fst (on_decode 200 False 1000 (Some ana_payload_text) started_scanner))
       \<lparr>isProcessing := True, status := Processing\<rparr>"
    unfolding a by (simp add: in_flight_scanner_def)
  from a b c d show ?thesis by simp
qed

end
